theory Spec2Isabelle
  imports Complex_Main "HOL-Library.AList"
begin

section \<open>The CC WebSocket bridge (src/src/websocket-bridge.ts)\<close>

text \<open>
  The class \<open>CCWebSocket\<close> keeps a registry of connected clients (a JavaScript \<open>Map\<close>
  from client id to connection handle), relays inbound frames to application callbacks and
  writes JSON envelopes to the connections. The model below is a shallow embedding of its
  methods: every method is a function from the state before the call to a \<open>result\<close>
  holding how the call completed, the state after it and the effects it performed, in
  order.

  What the methods obtain from outside the class is an argument of the model:
  \<^item> \<open>JSON.stringify\<close> and \<open>JSON.parse\<close> are built-ins of the JavaScript runtime. They
    are the two fields of a \<open>runtime\<close> record, so every theorem holds for any behaviour
    of the two functions;
  \<^item> \<open>Date.now()\<close> is a clock \<open>clk\<close>: \<open>clk i\<close> is what the \<open>i\<close>-th read made by the
    method itself returns (counted from 0), a number of milliseconds since the epoch;
  \<^item> \<open>Math.random().toString(36).substr(2, 9)\<close> is the string \<open>rnd\<close>;
  \<^item> the connection handles \<open>ws\<close> are objects of the transport. A handle is a reference
    into the store \<open>sockets\<close>, which holds for each handle its \<open>readyState\<close>, the
    metadata slot \<open>ws.data\<close>, and whether \<open>ws.send(text)\<close> and \<open>ws.close(..)\<close> throw;
  \<^item> the application callbacks are functions from their argument and the state to a
    completion and a state, so a callback may return or throw any value, and may call
    the public methods of the bridge while it runs. The effects of a method list what the code of
    the method does itself, with an \<open>Invoke\<close> where a callback runs; what the callback
    does is in the state it returns.
\<close>

subsection \<open>JSON values and the runtime\<close>

text \<open>
  A value that \<open>JSON.parse\<close> returns or \<open>JSON.stringify\<close> takes. Every finite JavaScript
  number is a rational. The list of a \<open>JObj\<close> stands for the own properties of an object.
\<close>

datatype json =
  JNull
| JBool bool
| JNum rat
| JStr string
| JArr "json list"
| JObj "(string \<times> json) list"

text \<open>\<open>JSON_parse rt s = None\<close>: \<open>JSON.parse(s)\<close> throws a \<open>SyntaxError\<close>.\<close>

record runtime =
  JSON_stringify :: "json \<Rightarrow> string"
  JSON_parse :: "string \<Rightarrow> json option"

text \<open>
  Property access \<open>v.k\<close> on a value other than \<open>null\<close>; \<open>None\<close> is \<open>undefined\<close>.
  Numbers, strings, booleans and arrays have no property named \<open>type\<close> or \<open>data\<close>.
\<close>

fun member :: "json \<Rightarrow> string \<Rightarrow> json option" where
  "member (JObj fs) k = map_of fs k"
| "member _ k = None"

subsection \<open>Numbers in template strings\<close>

definition digit_char :: "nat \<Rightarrow> char" where
  "digit_char d = ''0123456789'' ! d"

text \<open>The decimal digits of a natural number, as \<open>`${n}`\<close> prints an integer.\<close>

fun string_of_nat :: "nat \<Rightarrow> string" where
  "string_of_nat n =
     (if n < 10 then [digit_char n]
      else string_of_nat (n div 10) @ [digit_char (n mod 10)])"

declare string_of_nat.simps [simp del]

subsection \<open>State\<close>

type_synonym handle = nat

record ws_data =
  clientId :: string
  connectedAt :: nat

record socket =
  readyState :: nat
  data :: "ws_data option"
  send_throws :: "string \<Rightarrow> bool"
  close_throws :: bool

text \<open>The object \<open>Bun.serve\<close> returns; \<open>stop_throws\<close>: \<open>server.stop()\<close> throws.\<close>

record server_obj =
  stop_throws :: bool

record config =
  port :: nat
  host :: string
  path :: string

record ccwebsocket =
  server :: "server_obj option"
  clients :: "(string \<times> handle) list"
  config :: config
  startTime :: nat
  sockets :: "handle \<Rightarrow> socket"

record client_message =
  msg_type :: "json option"
  msg_data :: "json option"
  msg_timestamp :: nat
  msg_clientId :: string

text \<open>
  A thrown value, as far as the class looks at it: its \<open>catch\<close> blocks read
  \<open>error.message\<close>, which raises a \<open>TypeError\<close> when the value is \<open>null\<close> or
  \<open>undefined\<close> and is a plain read for every other value. What \<open>JSON.parse\<close>, the
  transport (\<open>ws.send\<close>, \<open>ws.close\<close>, \<open>Bun.serve\<close>, \<open>server.stop\<close>) and the language
  itself (a \<open>TypeError\<close>) throw is an \<open>Error\<close> object, so \<open>Non_nullish\<close>; a callback of
  the application may throw any value.
\<close>

datatype thrown = Nullish | Non_nullish

datatype completion = Returned | Threw thrown

type_synonym 'a callback = "'a \<Rightarrow> ccwebsocket \<Rightarrow> completion \<times> ccwebsocket"

record handlers =
  onMessage :: "client_message callback option"
  onClientConnect :: "string callback option"
  onClientDisconnect :: "string callback option"
  onCustomMessage :: "(json option \<times> json option \<times> string) callback option"

subsection \<open>Effects\<close>

text \<open>One constructor for each \<open>console\<close> call of the class, with the values it prints.\<close>

datatype console =
  Log_server_started
| Error_start_failed
| Log_server_stopped
| Warn_not_running
| Warn_send_failed string
| Log_sent string nat
| Warn_client_not_found string
| Log_sent_to_client string string
| Log_client_connected string nat
| Warn_welcome_failed string
| Log_client_disconnected string nat
| Warn_parse_failed string
| Warn_error_response_failed string
| Error_websocket string

datatype handler_call =
  OnMessage client_message
| OnClientConnect string
| OnClientDisconnect string
| OnCustomMessage "json option" "json option" string

text \<open>
  \<open>WsSend ws text\<close> is the call \<open>ws.send(text)\<close>, whether it throws or not;
  \<open>Invoke c\<close> is the call of a callback that is set.
\<close>

datatype event =
  WsSend handle string
| WsClose handle nat string
| ServerStop
| Console console
| Invoke handler_call

record result =
  completion :: completion
  final :: ccwebsocket
  effects :: "event list"

fun ws_sends :: "event list \<Rightarrow> (handle \<times> string) list" where
  "ws_sends [] = []"
| "ws_sends (WsSend ws text # es) = (ws, text) # ws_sends es"
| "ws_sends (e # es) = ws_sends es"

fun ws_closes :: "event list \<Rightarrow> handle list" where
  "ws_closes [] = []"
| "ws_closes (WsClose ws code reason # es) = ws # ws_closes es"
| "ws_closes (e # es) = ws_closes es"

fun invocations :: "event list \<Rightarrow> handler_call list" where
  "invocations [] = []"
| "invocations (Invoke c # es) = c # invocations es"
| "invocations (e # es) = invocations es"

fun console_calls :: "event list \<Rightarrow> console list" where
  "console_calls [] = []"
| "console_calls (Console c # es) = c # console_calls es"
| "console_calls (e # es) = console_calls es"

text \<open>\<open>this.handlers.h?.(x)\<close>: a callback that is not set is skipped.\<close>

fun invoke :: "'a callback option \<Rightarrow> 'a \<Rightarrow> handler_call \<Rightarrow> ccwebsocket
    \<Rightarrow> completion \<times> ccwebsocket \<times> event list" where
  "invoke None x c st = (Returned, st, [])"
| "invoke (Some f) x c st = (fst (f x st), snd (f x st), [Invoke c])"

subsection \<open>Construction, \<open>setHandlers\<close>, \<open>getStatus\<close>\<close>

record websocket_config =
  cfg_port :: "nat option"
  cfg_host :: "string option"
  cfg_path :: "string option"

text \<open>\<open>config.port || 3001\<close>: \<open>undefined\<close>, \<open>0\<close> and the empty string are falsy.\<close>

definition constructor :: "websocket_config \<Rightarrow> (handle \<Rightarrow> socket) \<Rightarrow> ccwebsocket" where
  "constructor c ss =
     \<lparr> server = None,
       clients = [],
       config = \<lparr> port = (case cfg_port c of None \<Rightarrow> 3001 | Some p \<Rightarrow> if p = 0 then 3001 else p),
                  host = (case cfg_host c of None \<Rightarrow> ''localhost'' | Some h \<Rightarrow> if h = [] then ''localhost'' else h),
                  path = (case cfg_path c of None \<Rightarrow> ''/ws'' | Some p \<Rightarrow> if p = [] then ''/ws'' else p) \<rparr>,
       startTime = 0,
       sockets = ss \<rparr>"

text \<open>
  The argument of \<open>setHandlers\<close> is an object in which each key is absent (\<open>None\<close>) or
  present; a key that is present holds a function or \<open>undefined\<close> (\<open>Some None\<close>).
\<close>

record handlers_arg =
  arg_onMessage :: "client_message callback option option"
  arg_onClientConnect :: "string callback option option"
  arg_onClientDisconnect :: "string callback option option"
  arg_onCustomMessage :: "(json option \<times> json option \<times> string) callback option option"

text \<open>
  One key of \<open>{ ...this.handlers, ...handlers }\<close>: a key present in the argument
  overwrites, also when its value is \<open>undefined\<close>; an absent key leaves the slot as it is.
\<close>

definition spread :: "'a option \<Rightarrow> 'a option option \<Rightarrow> 'a option" where
  "spread old new = (case new of None \<Rightarrow> old | Some v \<Rightarrow> v)"

definition setHandlers :: "handlers \<Rightarrow> handlers_arg \<Rightarrow> handlers" where
  "setHandlers cur new =
     \<lparr> onMessage = spread (onMessage cur) (arg_onMessage new),
       onClientConnect = spread (onClientConnect cur) (arg_onClientConnect new),
       onClientDisconnect = spread (onClientDisconnect cur) (arg_onClientDisconnect new),
       onCustomMessage = spread (onCustomMessage cur) (arg_onCustomMessage new) \<rparr>"

record websocket_status =
  isRunning :: bool
  connectedClients :: nat
  status_port :: nat
  status_host :: string

definition getStatus :: "ccwebsocket \<Rightarrow> websocket_status" where
  "getStatus st =
     \<lparr> isRunning = (server st \<noteq> None),
       connectedClients = length (clients st),
       status_port = port (config st),
       status_host = host (config st) \<rparr>"

definition getConnectedClients :: "ccwebsocket \<Rightarrow> string list" where
  "getConnectedClients st = map fst (clients st)"

definition isClientConnected :: "ccwebsocket \<Rightarrow> string \<Rightarrow> bool" where
  "isClientConnected st cid =
     (case map_of (clients st) cid of
        None \<Rightarrow> False
      | Some ws \<Rightarrow> readyState (sockets st ws) = 1)"

subsection \<open>Lifecycle: \<open>start\<close> and \<open>stop\<close>\<close>

text \<open>
  What \<open>start\<close> finds in its environment: no \<open>Bun.serve\<close>, or a \<open>Bun.serve\<close> that
  throws (\<open>Bun_serve None\<close>, for instance when the port is taken) or returns a server.
\<close>

datatype bun = Bun_undefined | Bun_serve "server_obj option"

definition start :: "bun \<Rightarrow> ccwebsocket \<Rightarrow> (nat \<Rightarrow> nat) \<Rightarrow> result" where
  "start env st clk =
     (if server st \<noteq> None then \<lparr> completion = Threw Non_nullish, final = st, effects = [] \<rparr>
      else case env of
        Bun_undefined \<Rightarrow>
          \<lparr> completion = Threw Non_nullish, final = st, effects = [Console Error_start_failed] \<rparr>
      | Bun_serve None \<Rightarrow>
          \<lparr> completion = Threw Non_nullish, final = st, effects = [Console Error_start_failed] \<rparr>
      | Bun_serve (Some srv) \<Rightarrow>
          \<lparr> completion = Returned,
            final = st\<lparr> server := Some srv, startTime := clk 0 \<rparr>,
            effects = [Console Log_server_started] \<rparr>)"

text \<open>
  The loop of \<open>stop\<close> over the registry: \<open>ws.close(1000, 'Server shutting down')\<close> for
  each entry. The loop has no \<open>try\<close>, so a \<open>close\<close> that throws ends it.
\<close>

fun close_all :: "(handle \<Rightarrow> socket) \<Rightarrow> (string \<times> handle) list \<Rightarrow> completion \<times> event list" where
  "close_all ss [] = (Returned, [])"
| "close_all ss ((cid, ws) # rest) =
     (if close_throws (ss ws) then (Threw Non_nullish, [WsClose ws 1000 ''Server shutting down''])
      else (fst (close_all ss rest),
            WsClose ws 1000 ''Server shutting down'' # snd (close_all ss rest)))"

definition stop :: "ccwebsocket \<Rightarrow> result" where
  "stop st =
     (case server st of
        None \<Rightarrow> \<lparr> completion = Returned, final = st, effects = [] \<rparr>
      | Some srv \<Rightarrow>
          (case close_all (sockets st) (clients st) of
             (Threw e, es) \<Rightarrow> \<lparr> completion = Threw e, final = st, effects = es \<rparr>
           | (Returned, es) \<Rightarrow>
               if stop_throws srv
               then \<lparr> completion = Threw Non_nullish, final = st\<lparr> clients := [] \<rparr>,
                      effects = es @ [ServerStop] \<rparr>
               else \<lparr> completion = Returned,
                      final = st\<lparr> clients := [], server := None \<rparr>,
                      effects = es @ [ServerStop, Console Log_server_stopped] \<rparr>))"

subsection \<open>Outbound envelopes\<close>

text \<open>The parameter default \<open>type: string = 'message'\<close>.\<close>

definition type_or_default :: "string option \<Rightarrow> string" where
  "type_or_default ty = (case ty of None \<Rightarrow> ''message'' | Some t \<Rightarrow> t)"

definition broadcast_envelope :: "string \<Rightarrow> json \<Rightarrow> nat \<Rightarrow> json" where
  "broadcast_envelope ty d t =
     JObj [(''type'', JStr ty), (''data'', d), (''timestamp'', JNum (of_nat t))]"

definition unicast_envelope :: "string \<Rightarrow> json \<Rightarrow> nat \<Rightarrow> string \<Rightarrow> json" where
  "unicast_envelope ty d t cid =
     JObj [(''type'', JStr ty), (''data'', d), (''timestamp'', JNum (of_nat t)),
           (''clientId'', JStr cid)]"

definition connected_envelope :: "string \<Rightarrow> nat \<Rightarrow> nat \<Rightarrow> json" where
  "connected_envelope cid t1 t2 =
     JObj [(''type'', JStr ''connected''),
           (''data'', JObj [(''clientId'', JStr cid),
                            (''message'', JStr ''Connected to CC WebSocket server''),
                            (''timestamp'', JNum (of_nat t1))]),
           (''timestamp'', JNum (of_nat t2))]"

definition pong_envelope :: "nat \<Rightarrow> nat \<Rightarrow> json" where
  "pong_envelope t1 t2 =
     JObj [(''type'', JStr ''pong''),
           (''data'', JObj [(''timestamp'', JNum (of_nat t1))]),
           (''timestamp'', JNum (of_nat t2))]"

definition error_envelope :: "nat \<Rightarrow> nat \<Rightarrow> json" where
  "error_envelope t1 t2 =
     JObj [(''type'', JStr ''error''),
           (''data'', JObj [(''message'', JStr ''Invalid message format''),
                            (''timestamp'', JNum (of_nat t1))]),
           (''timestamp'', JNum (of_nat t2))]"

subsection \<open>\<open>send\<close> and \<open>sendToClient\<close>\<close>

text \<open>
  The loop of \<open>send\<close> over \<open>this.clients\<close>, with the registry it leaves, the count
  \<open>sentCount\<close> and the effects so far. The loop deletes only the entry it is at, which
  the iteration of a \<open>Map\<close> allows, so it visits the entries the registry held at the call.
\<close>

fun send_loop :: "string \<Rightarrow> (string \<times> handle) list \<Rightarrow> ccwebsocket \<Rightarrow> nat \<Rightarrow> event list
    \<Rightarrow> ccwebsocket \<times> nat \<times> event list" where
  "send_loop text [] st n es = (st, n, es)"
| "send_loop text ((cid, ws) # rest) st n es =
     (if readyState (sockets st ws) = 1 then
        (if send_throws (sockets st ws) text
         then send_loop text rest (st\<lparr> clients := AList.delete cid (clients st) \<rparr>) n
                (es @ [WsSend ws text, Console (Warn_send_failed cid)])
         else send_loop text rest st (n + 1) (es @ [WsSend ws text]))
      else send_loop text rest st n es)"

definition send :: "runtime \<Rightarrow> ccwebsocket \<Rightarrow> json \<Rightarrow> string option \<Rightarrow> (nat \<Rightarrow> nat) \<Rightarrow> result" where
  "send rt st d ty clk =
     (if server st = None
      then \<lparr> completion = Returned, final = st, effects = [Console Warn_not_running] \<rparr>
      else
        let message = broadcast_envelope (type_or_default ty) d (clk 0);
            messageString = JSON_stringify rt message;
            (st', sentCount, es) = send_loop messageString (clients st) st 0 []
        in \<lparr> completion = Returned, final = st',
             effects = es @ (if sentCount > 0
                             then [Console (Log_sent (type_or_default ty) sentCount)]
                             else []) \<rparr>)"

definition sendToClient :: "runtime \<Rightarrow> ccwebsocket \<Rightarrow> string \<Rightarrow> json \<Rightarrow> string option
    \<Rightarrow> (nat \<Rightarrow> nat) \<Rightarrow> result" where
  "sendToClient rt st cid d ty clk =
     (if server st = None
      then \<lparr> completion = Returned, final = st, effects = [Console Warn_not_running] \<rparr>
      else case map_of (clients st) cid of
        None \<Rightarrow>
          \<lparr> completion = Returned, final = st, effects = [Console (Warn_client_not_found cid)] \<rparr>
      | Some ws \<Rightarrow>
          let message = unicast_envelope (type_or_default ty) d (clk 0) cid in
          if readyState (sockets st ws) = 1 then
            (if send_throws (sockets st ws) (JSON_stringify rt message)
             then \<lparr> completion = Returned,
                    final = st\<lparr> clients := AList.delete cid (clients st) \<rparr>,
                    effects = [WsSend ws (JSON_stringify rt message),
                               Console (Warn_send_failed cid)] \<rparr>
             else \<lparr> completion = Returned, final = st,
                    effects = [WsSend ws (JSON_stringify rt message),
                               Console (Log_sent_to_client (type_or_default ty) cid)] \<rparr>)
          else \<lparr> completion = Returned, final = st, effects = [] \<rparr>)"

subsection \<open>Transport events\<close>

definition generateClientId :: "nat \<Rightarrow> string \<Rightarrow> string" where
  "generateClientId now rnd = ''client_'' @ string_of_nat now @ ''_'' @ rnd"

text \<open>\<open>ws.data?.clientId\<close>; \<open>None\<close> is \<open>undefined\<close>.\<close>

definition data_clientId :: "socket \<Rightarrow> string option" where
  "data_clientId s = (case data s of None \<Rightarrow> None | Some d \<Rightarrow> Some (clientId d))"

text \<open>\<open>ws.data?.clientId || 'unknown'\<close>: \<open>undefined\<close> and the empty string are falsy.\<close>

definition clientId_or_unknown :: "socket \<Rightarrow> string" where
  "clientId_or_unknown s =
     (case data_clientId s of
        None \<Rightarrow> ''unknown''
      | Some c \<Rightarrow> if c = [] then ''unknown'' else c)"

definition handleOpen :: "runtime \<Rightarrow> handlers \<Rightarrow> ccwebsocket \<Rightarrow> handle \<Rightarrow> string
    \<Rightarrow> (nat \<Rightarrow> nat) \<Rightarrow> result" where
  "handleOpen rt hs st ws rnd clk =
     (let cid = generateClientId (clk 0) rnd;
          st1 = st\<lparr> sockets := (sockets st)
                       (ws := (sockets st ws)\<lparr> data := Some \<lparr> clientId = cid, connectedAt = clk 1 \<rparr> \<rparr>),
                    clients := AList.update cid ws (clients st) \<rparr>;
          log = Console (Log_client_connected cid (length (clients st1)));
          (c, st2, es) = invoke (onClientConnect hs) cid (OnClientConnect cid) st1
      in if c \<noteq> Returned then \<lparr> completion = c, final = st2, effects = log # es \<rparr>
         else
           let text = JSON_stringify rt (connected_envelope cid (clk 2) (clk 3)) in
           \<lparr> completion = Returned, final = st2,
             effects = log # es @ WsSend ws text #
               (if send_throws (sockets st2 ws) text then [Console (Warn_welcome_failed cid)]
                else []) \<rparr>)"

definition handleClose :: "handlers \<Rightarrow> ccwebsocket \<Rightarrow> handle \<Rightarrow> result" where
  "handleClose hs st ws =
     (case data_clientId (sockets st ws) of
        None \<Rightarrow> \<lparr> completion = Returned, final = st, effects = [] \<rparr>
      | Some cid \<Rightarrow>
          if cid = [] then \<lparr> completion = Returned, final = st, effects = [] \<rparr>
          else
            let st1 = st\<lparr> clients := AList.delete cid (clients st) \<rparr>;
                log = Console (Log_client_disconnected cid (length (clients st1)));
                (c, st2, es) = invoke (onClientDisconnect hs) cid (OnClientDisconnect cid) st1
            in \<lparr> completion = c, final = st2, effects = log # es \<rparr>)"

text \<open>
  What the \<open>catch\<close> block of \<open>handleMessage\<close> does once \<open>error.message\<close> has been read:
  the warning, then the \<open>error\<close> envelope to the connection the frame came from, in a
  \<open>try\<close> of its own.
\<close>

definition send_error_response :: "runtime \<Rightarrow> ccwebsocket \<Rightarrow> handle \<Rightarrow> string \<Rightarrow> nat \<Rightarrow> nat
    \<Rightarrow> event list" where
  "send_error_response rt st ws cid t1 t2 =
     (let text = JSON_stringify rt (error_envelope t1 t2) in
      Console (Warn_parse_failed cid) # WsSend ws text #
        (if send_throws (sockets st ws) text then [Console (Warn_error_response_failed cid)]
         else []))"

text \<open>
  The \<open>catch\<close> block as a whole, entered with the caught value \<open>e\<close> after the effects
  \<open>es\<close>. Its first statement is \<open>console.warn(`...`, error.message)\<close>: the arguments
  are evaluated before the call, so when \<open>e\<close> is \<open>null\<close> or \<open>undefined\<close> the read of
  \<open>error.message\<close> raises a \<open>TypeError\<close>, nothing is logged or sent, and the
  \<open>TypeError\<close> leaves \<open>handleMessage\<close>.
\<close>

definition catch_block :: "runtime \<Rightarrow> ccwebsocket \<Rightarrow> handle \<Rightarrow> string \<Rightarrow> thrown \<Rightarrow> nat \<Rightarrow> nat
    \<Rightarrow> event list \<Rightarrow> result" where
  "catch_block rt st ws cid e t1 t2 es =
     (case e of
        Nullish \<Rightarrow> \<lparr> completion = Threw Non_nullish, final = st, effects = es \<rparr>
      | Non_nullish \<Rightarrow>
          \<lparr> completion = Returned, final = st,
            effects = es @ send_error_response rt st ws cid t1 t2 \<rparr>)"

text \<open>
  \<open>handleMessage\<close>. Inside the \<open>try\<close>, in order: \<open>JSON.parse\<close>, which may throw a
  \<open>SyntaxError\<close>; the reads \<open>data.type\<close> and \<open>data.data\<close>, which throw a \<open>TypeError\<close>
  when the frame is the text \<open>null\<close>; the first clock read; then the heartbeat reply,
  whose \<open>ws.send\<close> may throw, or the two callbacks, each of which may throw any value.
  Whatever is thrown there reaches the one \<open>catch\<close>.
\<close>

definition handleMessage :: "runtime \<Rightarrow> handlers \<Rightarrow> ccwebsocket \<Rightarrow> handle \<Rightarrow> string
    \<Rightarrow> (nat \<Rightarrow> nat) \<Rightarrow> result" where
  "handleMessage rt hs st ws message clk =
     (let cid = clientId_or_unknown (sockets st ws) in
      case JSON_parse rt message of
        None \<Rightarrow> catch_block rt st ws cid Non_nullish (clk 0) (clk 1) []
      | Some d \<Rightarrow>
          if d = JNull then catch_block rt st ws cid Non_nullish (clk 0) (clk 1) []
          else
            let clientMessage = \<lparr> msg_type = member d ''type'', msg_data = member d ''data'',
                                  msg_timestamp = clk 0, msg_clientId = cid \<rparr> in
            if member d ''type'' = Some (JStr ''ping'') then
              (let text = JSON_stringify rt (pong_envelope (clk 1) (clk 2)) in
               if send_throws (sockets st ws) text
               then catch_block rt st ws cid Non_nullish (clk 3) (clk 4) [WsSend ws text]
               else \<lparr> completion = Returned, final = st, effects = [WsSend ws text] \<rparr>)
            else
              (let (c1, st1, es1) = invoke (onMessage hs) clientMessage (OnMessage clientMessage) st
               in case c1 of
                    Threw e \<Rightarrow> catch_block rt st1 ws cid e (clk 1) (clk 2) es1
                  | Returned \<Rightarrow>
                      (let (c2, st2, es2) =
                             invoke (onCustomMessage hs) (member d ''type'', member d ''data'', cid)
                               (OnCustomMessage (member d ''type'') (member d ''data'') cid) st1
                       in case c2 of
                            Threw e \<Rightarrow> catch_block rt st2 ws cid e (clk 1) (clk 2) (es1 @ es2)
                          | Returned \<Rightarrow>
                              \<lparr> completion = Returned, final = st2, effects = es1 @ es2 \<rparr>)))"

text \<open>
  \<open>handleError\<close>. The guard \<open>if (clientId)\<close> tests the string that already has the
  default \<open>'unknown'\<close>.
\<close>

definition handleError :: "handlers \<Rightarrow> ccwebsocket \<Rightarrow> handle \<Rightarrow> result" where
  "handleError hs st ws =
     (let cid = clientId_or_unknown (sockets st ws);
          report = Console (Error_websocket cid)
      in if cid \<noteq> [] then
           (let st1 = st\<lparr> clients := AList.delete cid (clients st) \<rparr>;
                (c, st2, es) = invoke (onClientDisconnect hs) cid (OnClientDisconnect cid) st1
            in \<lparr> completion = c, final = st2, effects = report # es \<rparr>)
         else \<lparr> completion = Returned, final = st, effects = [report] \<rparr>)"

subsection \<open>What one step of the broadcast loop does\<close>

text \<open>
  The effects of one iteration of the loop of \<open>send\<close> on a registry entry, and whether
  the entry is one whose write throws.
\<close>

definition send_events :: "(handle \<Rightarrow> socket) \<Rightarrow> string \<Rightarrow> string \<times> handle \<Rightarrow> event list" where
  "send_events ss text e =
     (if readyState (ss (snd e)) = 1 then
        (if send_throws (ss (snd e)) text
         then [WsSend (snd e) text, Console (Warn_send_failed (fst e))]
         else [WsSend (snd e) text])
      else [])"

definition write_fails :: "(handle \<Rightarrow> socket) \<Rightarrow> string \<Rightarrow> string \<times> handle \<Rightarrow> bool" where
  "write_fails ss text e = (readyState (ss (snd e)) = 1 \<and> send_throws (ss (snd e)) text)"

subsection \<open>Runs of events and calls\<close>

text \<open>
  A run of connection-opened events, each with its handle, its random string and its
  clock: the state after the last one, and the client ids that \<open>handleOpen\<close> assigned,
  in order.
\<close>

fun open_all :: "runtime \<Rightarrow> handlers \<Rightarrow> ccwebsocket \<Rightarrow> (handle \<times> string \<times> (nat \<Rightarrow> nat)) list
    \<Rightarrow> ccwebsocket \<times> string list" where
  "open_all rt hs st [] = (st, [])"
| "open_all rt hs st ((ws, rnd, clk) # evs) =
     (fst (open_all rt hs (final (handleOpen rt hs st ws rnd clk)) evs),
      generateClientId (clk 0) rnd
        # snd (open_all rt hs (final (handleOpen rt hs st ws rnd clk)) evs))"

datatype api_call =
  Send json "string option" "nat \<Rightarrow> nat"
| SendToClient string json "string option" "nat \<Rightarrow> nat"

fun api :: "runtime \<Rightarrow> ccwebsocket \<Rightarrow> api_call \<Rightarrow> result" where
  "api rt st (Send d ty clk) = send rt st d ty clk"
| "api rt st (SendToClient cid d ty clk) = sendToClient rt st cid d ty clk"

text \<open>A sequence of calls, one after the other: the results of the calls, in order.\<close>

fun api_all :: "runtime \<Rightarrow> ccwebsocket \<Rightarrow> api_call list \<Rightarrow> result list" where
  "api_all rt st [] = []"
| "api_all rt st (c # cs) = api rt st c # api_all rt (final (api rt st c)) cs"

text \<open>
  What a connection-opened event draws from the clock and the random source for its
  client id, and the id it is assigned.
\<close>

definition draw :: "handle \<times> string \<times> (nat \<Rightarrow> nat) \<Rightarrow> nat \<times> string" where
  "draw e = (snd (snd e) 0, fst (snd e))"

definition assigned :: "handle \<times> string \<times> (nat \<Rightarrow> nat) \<Rightarrow> string" where
  "assigned e = generateClientId (snd (snd e) 0) (fst (snd e))"

text \<open>
  A handler set whose \<open>onClientConnect\<close> callback, if there is one, leaves the registry
  as it finds it: it neither stops the server nor causes a removal.
\<close>

definition keeps_registry :: "handlers \<Rightarrow> bool" where
  "keeps_registry hs =
     (case onClientConnect hs of
        None \<Rightarrow> True
      | Some f \<Rightarrow> \<forall>cid s. clients (snd (f cid s)) = clients s)"

text \<open>
  The values of JavaScript among the terms of \<open>json\<close>: an object has each key once.
\<close>

fun wf_json :: "json \<Rightarrow> bool" where
  "wf_json (JArr vs) = list_all wf_json vs"
| "wf_json (JObj fs) = (distinct (map fst fs) \<and> list_all wf_json (map snd fs))"
| "wf_json v = True"

text \<open>The registry is a \<open>Map\<close>: it holds each key once.\<close>

definition registry_ok :: "ccwebsocket \<Rightarrow> bool" where
  "registry_ok st = distinct (map fst (clients st))"

text \<open>Every callback of a handler set that is set keeps a property of the state.\<close>

definition callbacks_preserve :: "(ccwebsocket \<Rightarrow> bool) \<Rightarrow> handlers \<Rightarrow> bool" where
  "callbacks_preserve P hs =
     ((\<forall>f x s. onMessage hs = Some f \<longrightarrow> P s \<longrightarrow> P (snd (f x s)))
      \<and> (\<forall>f x s. onClientConnect hs = Some f \<longrightarrow> P s \<longrightarrow> P (snd (f x s)))
      \<and> (\<forall>f x s. onClientDisconnect hs = Some f \<longrightarrow> P s \<longrightarrow> P (snd (f x s)))
      \<and> (\<forall>f x s. onCustomMessage hs = Some f \<longrightarrow> P s \<longrightarrow> P (snd (f x s))))"


subsection \<open>A reference runtime\<close>

text \<open>
  A printer and a parser of JSON text, to run the model on concrete frames: strings
  with the quote and the backslash escaped, integers in decimal, any other rational as
  a quotient, no blank space. The parser takes fuel, one unit for each nested call.
\<close>

definition is_digit :: "char \<Rightarrow> bool" where
  "is_digit c = (48 \<le> (of_char c :: nat) \<and> (of_char c :: nat) \<le> 57)"

definition digit_val :: "char \<Rightarrow> nat" where
  "digit_val c = of_char c - 48"

fun nat_of_digits :: "nat \<Rightarrow> string \<Rightarrow> nat" where
  "nat_of_digits acc [] = acc"
| "nat_of_digits acc (c # cs) = nat_of_digits (10 * acc + digit_val c) cs"

definition parse_nat :: "string \<Rightarrow> (nat \<times> string) option" where
  "parse_nat s =
     (if takeWhile is_digit s = [] then None
      else Some (nat_of_digits 0 (takeWhile is_digit s), dropWhile is_digit s))"

definition parse_int :: "string \<Rightarrow> (int \<times> string) option" where
  "parse_int s =
     (case s of
        [] \<Rightarrow> None
      | c # r \<Rightarrow>
          if c = CHR ''-'' then map_option (\<lambda>(n, r'). (- int n, r')) (parse_nat r)
          else map_option (\<lambda>(n, r'). (int n, r')) (parse_nat s))"

definition parse_number :: "string \<Rightarrow> (rat \<times> string) option" where
  "parse_number s =
     (case parse_int s of
        None \<Rightarrow> None
      | Some (p, r) \<Rightarrow>
          (case r of
             [] \<Rightarrow> Some (of_int p, r)
           | c # r' \<Rightarrow>
               if c = CHR ''/'' then map_option (\<lambda>(q, r''). (Fract p (int q), r'')) (parse_nat r')
               else Some (of_int p, r)))"

fun parse_string_body :: "string \<Rightarrow> (string \<times> string) option" where
  "parse_string_body [] = None"
| "parse_string_body (c # r) =
     (if c = CHR 0x22 then Some ([], r)
      else if c = CHR 0x5C then
        (case r of
           [] \<Rightarrow> None
         | d # r' \<Rightarrow>
             if d = CHR 0x22 \<or> d = CHR 0x5C
             then map_option (\<lambda>(s, r''). (d # s, r'')) (parse_string_body r')
             else None)
      else map_option (\<lambda>(s, r'). (c # s, r')) (parse_string_body r))"

fun parse_value :: "nat \<Rightarrow> string \<Rightarrow> (json \<times> string) option"
and parse_elements :: "nat \<Rightarrow> string \<Rightarrow> (json list \<times> string) option"
and parse_members :: "nat \<Rightarrow> string \<Rightarrow> ((string \<times> json) list \<times> string) option" where
  "parse_value 0 s = None"
| "parse_value (Suc n) [] = None"
| "parse_value (Suc n) (c # r) =
     (if c = CHR ''n'' then (if take 3 r = ''ull'' then Some (JNull, drop 3 r) else None)
      else if c = CHR ''t'' then (if take 3 r = ''rue'' then Some (JBool True, drop 3 r) else None)
      else if c = CHR ''f'' then (if take 4 r = ''alse'' then Some (JBool False, drop 4 r) else None)
      else if c = CHR 0x22 then map_option (\<lambda>(s, r'). (JStr s, r')) (parse_string_body r)
      else if c = CHR ''['' then
        (if take 1 r = '']'' then Some (JArr [], drop 1 r)
         else map_option (\<lambda>(vs, r'). (JArr vs, r')) (parse_elements n r))
      else if c = CHR ''{'' then
        (if take 1 r = ''}'' then Some (JObj [], drop 1 r)
         else map_option (\<lambda>(fs, r'). (JObj fs, r')) (parse_members n r))
      else map_option (\<lambda>(x, r'). (JNum x, r')) (parse_number (c # r)))"
| "parse_elements 0 s = None"
| "parse_elements (Suc n) s =
     (case parse_value n s of
        None \<Rightarrow> None
      | Some (v, r) \<Rightarrow>
          (case r of
             [] \<Rightarrow> None
           | c # r' \<Rightarrow>
               if c = CHR '','' then map_option (\<lambda>(vs, r''). (v # vs, r'')) (parse_elements n r')
               else if c = CHR '']'' then Some ([v], r')
               else None))"
| "parse_members 0 s = None"
| "parse_members (Suc n) s =
     (case s of
        [] \<Rightarrow> None
      | q # s' \<Rightarrow>
          if q \<noteq> CHR 0x22 then None
          else
            (case parse_string_body s' of
               None \<Rightarrow> None
             | Some (k, r0) \<Rightarrow>
                 (case r0 of
                    [] \<Rightarrow> None
                  | colon # r1 \<Rightarrow>
                      if colon \<noteq> CHR '':'' then None
                      else
                        (case parse_value n r1 of
                           None \<Rightarrow> None
                         | Some (v, r) \<Rightarrow>
                             (case r of
                                [] \<Rightarrow> None
                              | c # r' \<Rightarrow>
                                  if c = CHR '','' then
                                    map_option (\<lambda>(fs, r''). ((k, v) # fs, r'')) (parse_members n r')
                                  else if c = CHR ''}'' then Some ([(k, v)], r')
                                  else None)))))"

definition parse_text :: "string \<Rightarrow> json option" where
  "parse_text s =
     (case parse_value (Suc (length s)) s of
        None \<Rightarrow> None
      | Some (v, r) \<Rightarrow> if r = [] then Some v else None)"

fun escape :: "string \<Rightarrow> string" where
  "escape [] = []"
| "escape (c # cs) =
     (if c = CHR 0x22 \<or> c = CHR 0x5C then CHR 0x5C # c # escape cs else c # escape cs)"

definition quote :: "string \<Rightarrow> string" where
  "quote s = CHR 0x22 # escape s @ [CHR 0x22]"

definition print_int :: "int \<Rightarrow> string" where
  "print_int i = (if i < 0 then CHR ''-'' # string_of_nat (nat (- i)) else string_of_nat (nat i))"

definition print_number :: "rat \<Rightarrow> string" where
  "print_number x =
     (if snd (quotient_of x) = 1 then print_int (fst (quotient_of x))
      else print_int (fst (quotient_of x)) @ ''/'' @ string_of_nat (nat (snd (quotient_of x))))"

fun commas :: "string list \<Rightarrow> string" where
  "commas [] = []"
| "commas [x] = x"
| "commas (x # y # zs) = x @ '','' @ commas (y # zs)"

fun print_json :: "json \<Rightarrow> string" where
  "print_json JNull = ''null''"
| "print_json (JBool b) = (if b then ''true'' else ''false'')"
| "print_json (JNum x) = print_number x"
| "print_json (JStr s) = quote s"
| "print_json (JArr vs) = ''['' @ commas (map print_json vs) @ '']''"
| "print_json (JObj fs) = ''{'' @ commas (map (\<lambda>(k, v). quote k @ '':'' @ print_json v) fs) @ ''}''"

text \<open>
  Where a number, and where a value, may end in a text; one member of an object as the
  printer writes it.
\<close>

definition digit_free_start :: "string \<Rightarrow> bool" where
  "digit_free_start rest = (case rest of [] \<Rightarrow> True | c # _ \<Rightarrow> \<not> is_digit c)"

definition number_end :: "string \<Rightarrow> bool" where
  "number_end rest = (case rest of [] \<Rightarrow> True | c # _ \<Rightarrow> \<not> is_digit c \<and> c \<noteq> CHR ''/'')"

definition value_end :: "string \<Rightarrow> bool" where
  "value_end rest =
     (case rest of [] \<Rightarrow> True | c # _ \<Rightarrow> c = CHR '','' \<or> c = CHR '']'' \<or> c = CHR ''}'')"

definition print_member :: "string \<times> json \<Rightarrow> string" where
  "print_member kv = quote (fst kv) @ '':'' @ print_json (snd kv)"

definition rt0 :: runtime where
  "rt0 = \<lparr> JSON_stringify = print_json, JSON_parse = parse_text \<rparr>"

text \<open>
  A runtime whose \<open>JSON.parse\<close> gives back every value of JavaScript that its
  \<open>JSON.stringify\<close> has written.
\<close>

definition roundtrips :: "runtime \<Rightarrow> bool" where
  "roundtrips rt = (\<forall>v. wf_json v \<longrightarrow> JSON_parse rt (JSON_stringify rt v) = Some v)"

subsection \<open>Concrete inputs\<close>

definition no_handlers :: handlers where
  "no_handlers =
     \<lparr> onMessage = None, onClientConnect = None, onClientDisconnect = None,
       onCustomMessage = None \<rparr>"

definition returning :: "'a callback" where
  "returning x st = (Returned, st)"

text \<open>A callback that throws an \<open>Error\<close>, and one that executes \<open>throw null\<close>.\<close>

definition throwing :: "'a callback" where
  "throwing x st = (Threw Non_nullish, st)"

definition throwing_null :: "'a callback" where
  "throwing_null x st = (Threw Nullish, st)"

definition all_handlers :: handlers where
  "all_handlers =
     \<lparr> onMessage = Some returning, onClientConnect = Some returning,
       onClientDisconnect = Some returning, onCustomMessage = Some returning \<rparr>"

definition failing_onMessage :: handlers where
  "failing_onMessage = all_handlers\<lparr> onMessage := Some throwing \<rparr>"

definition null_onMessage :: handlers where
  "null_onMessage = all_handlers\<lparr> onMessage := Some throwing_null \<rparr>"

definition never :: "string \<Rightarrow> bool" where
  "never text = False"

definition always :: "string \<Rightarrow> bool" where
  "always text = True"

text \<open>
  Handles 1, 2 and 3 are registered: 1 is open and writable, 2 is open and its \<open>send\<close>
  throws, 3 is closed. The other handles are connections that \<open>handleOpen\<close> has not
  seen yet, with no metadata; the \<open>send\<close> of handle 4 throws.
\<close>

definition demo_sockets :: "handle \<Rightarrow> socket" where
  "demo_sockets h =
     (if h = 1 then \<lparr> readyState = 1, data = Some \<lparr> clientId = ''client_1_a'', connectedAt = 1 \<rparr>,
                      send_throws = never, close_throws = False \<rparr>
      else if h = 2 then \<lparr> readyState = 1, data = Some \<lparr> clientId = ''client_2_b'', connectedAt = 2 \<rparr>,
                           send_throws = always, close_throws = False \<rparr>
      else if h = 3 then \<lparr> readyState = 3, data = Some \<lparr> clientId = ''client_3_c'', connectedAt = 3 \<rparr>,
                           send_throws = never, close_throws = False \<rparr>
      else if h = 4 then \<lparr> readyState = 1, data = None, send_throws = always, close_throws = False \<rparr>
      else \<lparr> readyState = 1, data = None, send_throws = never, close_throws = False \<rparr>)"

definition demo_config :: config where
  "demo_config = \<lparr> port = 3001, host = ''localhost'', path = ''/ws'' \<rparr>"

definition demo_running :: ccwebsocket where
  "demo_running =
     \<lparr> server = Some \<lparr> stop_throws = False \<rparr>,
       clients = [(''client_1_a'', 1), (''client_2_b'', 2), (''client_3_c'', 3)],
       config = demo_config, startTime = 0, sockets = demo_sockets \<rparr>"

definition demo_empty :: ccwebsocket where
  "demo_empty = demo_running\<lparr> clients := [] \<rparr>"

definition demo_stopped :: ccwebsocket where
  "demo_stopped = final (stop demo_running)"

definition tick :: "nat \<Rightarrow> nat" where
  "tick i = 1000 + i"

definition frozen :: "nat \<Rightarrow> nat" where
  "frozen i = 7"

definition three_opens :: "(handle \<times> string \<times> (nat \<Rightarrow> nat)) list" where
  "three_opens = [(5, ''k3x'', tick), (6, ''k3x'', frozen), (7, ''q9z'', frozen)]"

text \<open>Two connections opened in the same millisecond, with the same random string.\<close>

definition twin_opens :: "(handle \<times> string \<times> (nat \<Rightarrow> nat)) list" where
  "twin_opens = [(5, ''k3x'', frozen), (6, ''k3x'', frozen)]"

text \<open>The payload \<open>{x: 1}\<close>.\<close>

definition x1 :: json where
  "x1 = JObj [(''x'', JNum 1)]"

text \<open>Frames as a client writes them: a heartbeat and a chat message.\<close>

definition ping_frame :: string where
  "ping_frame = print_json (JObj [(''type'', JStr ''ping'')])"

definition chat_frame :: string where
  "chat_frame =
     print_json (JObj [(''type'', JStr ''chat''), (''data'', JObj [(''message'', JStr ''hi'')])])"

section \<open>Properties\<close>

subsection \<open>Projections of the effects\<close>

lemma ws_sends_append [simp]: "ws_sends (xs @ ys) = ws_sends xs @ ws_sends ys"
  by (induction xs rule: ws_sends.induct) simp_all

lemma invocations_append [simp]: "invocations (xs @ ys) = invocations xs @ invocations ys"
  by (induction xs rule: invocations.induct) simp_all

lemma console_calls_append [simp]: "console_calls (xs @ ys) = console_calls xs @ console_calls ys"
  by (induction xs rule: console_calls.induct) simp_all

lemma ws_sends_error_response:
  "ws_sends (send_error_response rt st ws cid t1 t2)
     = [(ws, JSON_stringify rt (error_envelope t1 t2))]"
  by (simp add: send_error_response_def Let_def)

lemma invocations_error_response:
  "invocations (send_error_response rt st ws cid t1 t2) = []"
  by (simp add: send_error_response_def Let_def)

lemma ws_closes_error_response:
  "ws_closes (send_error_response rt st ws cid t1 t2) = []"
  by (simp add: send_error_response_def Let_def)

lemma catch_block_value [simp]:
  "catch_block rt st ws cid Non_nullish t1 t2 es
     = \<lparr> completion = Returned, final = st,
         effects = es @ send_error_response rt st ws cid t1 t2 \<rparr>"
  by (simp add: catch_block_def)

lemma catch_block_nullish [simp]:
  "catch_block rt st ws cid Nullish t1 t2 es
     = \<lparr> completion = Threw Non_nullish, final = st, effects = es \<rparr>"
  by (simp add: catch_block_def)

lemma final_catch_block [simp]: "final (catch_block rt st ws cid e t1 t2 es) = st"
  by (cases e) simp_all

lemma console_calls_error_response:
  "console_calls (send_error_response rt st ws cid t1 t2)
     = Warn_parse_failed cid
       # (if send_throws (sockets st ws) (JSON_stringify rt (error_envelope t1 t2))
          then [Warn_error_response_failed cid] else [])"
  by (simp add: send_error_response_def Let_def)

lemma error_envelope_fields:
  "member (error_envelope t1 t2) ''type'' = Some (JStr ''error'')"
  "member (error_envelope t1 t2) ''data'' =
     Some (JObj [(''message'', JStr ''Invalid message format''),
                 (''timestamp'', JNum (of_nat t1))])"
  by (simp_all add: error_envelope_def)

subsection \<open>\<open>setHandlers\<close> merges key by key\<close>

lemma setHandlers_absent:
  "arg_onMessage new = None \<Longrightarrow> onMessage (setHandlers cur new) = onMessage cur"
  by (simp add: setHandlers_def spread_def)

lemma setHandlers_present:
  "arg_onMessage new = Some v \<Longrightarrow> onMessage (setHandlers cur new) = v"
  by (simp add: setHandlers_def spread_def)

subsection \<open>Running the reference runtime\<close>

lemma string_of_nat_0: "string_of_nat 0 = ''0''"
  by (subst string_of_nat.simps) (simp add: digit_char_def)

lemma string_of_nat_1: "string_of_nat (Suc 0) = ''1''"
  by (subst string_of_nat.simps) (simp add: digit_char_def)

lemma string_of_nat_numeral:
  "string_of_nat (numeral k) =
     (if numeral k < (10::nat) then [digit_char (numeral k)]
      else string_of_nat (numeral k div 10) @ [digit_char (numeral k mod 10)])"
  by (rule string_of_nat.simps)

lemmas eval_print =
  string_of_nat_0 string_of_nat_1 string_of_nat_numeral digit_char_def
  quote_def print_number_def print_int_def

lemmas eval_parse =
  parse_text_def parse_number_def parse_int_def parse_nat_def is_digit_def digit_val_def

lemmas eval_demo =
  demo_running_def demo_empty_def demo_sockets_def demo_config_def never_def always_def
  tick_def frozen_def clientId_or_unknown_def data_clientId_def

lemma demo_running_fields:
  "server demo_running = Some \<lparr> stop_throws = False \<rparr>"
  "clients demo_running = [(''client_1_a'', 1), (''client_2_b'', 2), (''client_3_c'', 3)]"
  "sockets demo_running = demo_sockets"
  by (simp_all add: demo_running_def)

lemma parse_hello: "JSON_parse rt0 ''hello'' = None"
  by (simp add: rt0_def eval_parse)

lemma parse_ping_frame: "JSON_parse rt0 ping_frame = Some (JObj [(''type'', JStr ''ping'')])"
  by (simp add: rt0_def ping_frame_def eval_print eval_parse)

lemma parse_chat_frame:
  "JSON_parse rt0 chat_frame
     = Some (JObj [(''type'', JStr ''chat''), (''data'', JObj [(''message'', JStr ''hi'')])])"
  by (simp add: rt0_def chat_frame_def eval_print eval_parse)

subsection \<open>The inbound protocol\<close>

text \<open>
  C3. For every inbound frame whose payload is not valid JSON (\<open>JSON.parse\<close> throws),
  neither \<open>onMessage\<close> nor \<open>onCustomMessage\<close> is invoked, the one \<open>ws.send\<close> the handler
  makes goes to the connection the frame came from and carries the envelope of type
  \<open>error\<close> with the fixed message \<open>Invalid message format\<close>, no connection is closed,
  and the handler returns with the state as it was, so the connection stays registered.
\<close>

theorem malformed_frame_error_reply:
  assumes "JSON_parse rt message = None"
  shows "invocations (effects (handleMessage rt hs st ws message clk)) = []
       \<and> ws_sends (effects (handleMessage rt hs st ws message clk))
           = [(ws, JSON_stringify rt (error_envelope (clk 0) (clk 1)))]
       \<and> member (error_envelope (clk 0) (clk 1)) ''type'' = Some (JStr ''error'')
       \<and> member (error_envelope (clk 0) (clk 1)) ''data''
           = Some (JObj [(''message'', JStr ''Invalid message format''),
                         (''timestamp'', JNum (of_nat (clk 0)))])
       \<and> ws_closes (effects (handleMessage rt hs st ws message clk)) = []
       \<and> final (handleMessage rt hs st ws message clk) = st
       \<and> completion (handleMessage rt hs st ws message clk) = Returned"
  using assms
  by (simp add: handleMessage_def ws_sends_error_response invocations_error_response
      ws_closes_error_response error_envelope_fields)

theorem malformed_frame_error_reply_witness:
  "JSON_parse rt0 ''hello'' = None
   \<and> invocations (effects (handleMessage rt0 all_handlers demo_running 1 ''hello'' tick)) = []
   \<and> ws_sends (effects (handleMessage rt0 all_handlers demo_running 1 ''hello'' tick))
       = [(1, JSON_stringify rt0 (error_envelope 1000 1001))]
   \<and> map_of (clients (final (handleMessage rt0 all_handlers demo_running 1 ''hello'' tick)))
       ''client_1_a'' = Some 1
   \<and> completion (handleMessage rt0 all_handlers demo_running 1 ''hello'' tick) = Returned"
  using malformed_frame_error_reply [OF parse_hello, of all_handlers demo_running 1 tick]
  by (simp add: parse_hello tick_def demo_running_def)

text \<open>
  C4. For every inbound frame that parses to an object whose \<open>type\<close> is \<open>ping\<close>, neither
  \<open>onMessage\<close> nor \<open>onCustomMessage\<close> is invoked, and exactly one envelope of type \<open>pong\<close>
  is passed to \<open>ws.send\<close>, on the connection the frame came from, with the reply timestamp
  as its payload. It is the only write when that \<open>ws.send\<close> returns; when it throws, the
  \<open>catch\<close> block writes an \<open>error\<close> envelope to the same connection. No other connection
  is written to, and the state is as it was.
\<close>

theorem ping_pong_reply:
  assumes "JSON_parse rt message = Some d" and "member d ''type'' = Some (JStr ''ping'')"
  shows "invocations (effects (handleMessage rt hs st ws message clk)) = []
       \<and> ws_sends (effects (handleMessage rt hs st ws message clk))
           = (ws, JSON_stringify rt (pong_envelope (clk 1) (clk 2)))
             # (if send_throws (sockets st ws) (JSON_stringify rt (pong_envelope (clk 1) (clk 2)))
                then [(ws, JSON_stringify rt (error_envelope (clk 3) (clk 4)))] else [])
       \<and> member (pong_envelope (clk 1) (clk 2)) ''type'' = Some (JStr ''pong'')
       \<and> member (pong_envelope (clk 1) (clk 2)) ''data''
           = Some (JObj [(''timestamp'', JNum (of_nat (clk 1)))])
       \<and> final (handleMessage rt hs st ws message clk) = st
       \<and> completion (handleMessage rt hs st ws message clk) = Returned"
proof -
  from assms(2) have "d \<noteq> JNull" by auto
  with assms show ?thesis
    by (simp add: handleMessage_def Let_def ws_sends_error_response invocations_error_response
        pong_envelope_def)
qed

theorem ping_pong_reply_witness:
  "JSON_parse rt0 ping_frame = Some (JObj [(''type'', JStr ''ping'')])
   \<and> member (JObj [(''type'', JStr ''ping'')]) ''type'' = Some (JStr ''ping'')
   \<and> invocations (effects (handleMessage rt0 all_handlers demo_running 1 ping_frame tick)) = []
   \<and> ws_sends (effects (handleMessage rt0 all_handlers demo_running 1 ping_frame tick))
       = [(1, JSON_stringify rt0 (pong_envelope 1001 1002))]
   \<and> final (handleMessage rt0 all_handlers demo_running 1 ping_frame tick) = demo_running"
proof -
  have ty: "member (JObj [(''type'', JStr ''ping'')]) ''type'' = Some (JStr ''ping'')"
    by simp
  show ?thesis
    using ping_pong_reply [OF parse_ping_frame ty, of all_handlers demo_running 1 tick]
    by (simp add: parse_ping_frame eval_demo)
qed

text \<open>
  A callback that throws. When \<open>onMessage\<close> throws a value other than \<open>null\<close> and
  \<open>undefined\<close> on a frame that parses to a value other than \<open>null\<close> and is not a
  heartbeat, \<open>onCustomMessage\<close> is not invoked, the \<open>catch\<close> block writes the envelope of
  type \<open>error\<close> with the message \<open>Invalid message format\<close> to the connection the frame
  came from, and \<open>handleMessage\<close> returns with the state the callback left.
\<close>

lemma onMessage_throws_value:
  assumes "JSON_parse rt message = Some d" and "d \<noteq> JNull"
    and "member d ''type'' \<noteq> Some (JStr ''ping'')"
    and "onMessage hs = Some f"
    and "m = \<lparr> msg_type = member d ''type'', msg_data = member d ''data'',
               msg_timestamp = clk 0, msg_clientId = clientId_or_unknown (sockets st ws) \<rparr>"
    and "fst (f m st) = Threw Non_nullish"
  shows "invocations (effects (handleMessage rt hs st ws message clk)) = [OnMessage m]
       \<and> ws_sends (effects (handleMessage rt hs st ws message clk))
           = [(ws, JSON_stringify rt (error_envelope (clk 1) (clk 2)))]
       \<and> member (error_envelope (clk 1) (clk 2)) ''type'' = Some (JStr ''error'')
       \<and> member (error_envelope (clk 1) (clk 2)) ''data''
           = Some (JObj [(''message'', JStr ''Invalid message format''),
                         (''timestamp'', JNum (of_nat (clk 1)))])
       \<and> final (handleMessage rt hs st ws message clk) = snd (f m st)
       \<and> completion (handleMessage rt hs st ws message clk) = Returned"
  using assms
  by (simp add: handleMessage_def Let_def ws_sends_error_response invocations_error_response
      error_envelope_fields)

text \<open>
  When the value it throws is \<open>null\<close> or \<open>undefined\<close>, the read of \<open>error.message\<close> in the
  \<open>catch\<close> block raises a \<open>TypeError\<close>: nothing is logged, nothing is written, and the
  \<open>TypeError\<close> leaves \<open>handleMessage\<close>.
\<close>

lemma onMessage_throws_nullish:
  assumes "JSON_parse rt message = Some d" and "d \<noteq> JNull"
    and "member d ''type'' \<noteq> Some (JStr ''ping'')"
    and "onMessage hs = Some f"
    and "m = \<lparr> msg_type = member d ''type'', msg_data = member d ''data'',
               msg_timestamp = clk 0, msg_clientId = clientId_or_unknown (sockets st ws) \<rparr>"
    and "fst (f m st) = Threw Nullish"
  shows "invocations (effects (handleMessage rt hs st ws message clk)) = [OnMessage m]
       \<and> ws_sends (effects (handleMessage rt hs st ws message clk)) = []
       \<and> console_calls (effects (handleMessage rt hs st ws message clk)) = []
       \<and> final (handleMessage rt hs st ws message clk) = snd (f m st)
       \<and> completion (handleMessage rt hs st ws message clk) = Threw Non_nullish"
  using assms
  by (simp add: handleMessage_def Let_def)

lemma failing_onMessage_replies:
  "onMessage failing_onMessage = Some throwing
   \<and> onCustomMessage failing_onMessage = Some returning
   \<and> invocations (effects (handleMessage rt0 failing_onMessage demo_running 1 chat_frame tick))
       = [OnMessage \<lparr> msg_type = Some (JStr ''chat''),
                      msg_data = Some (JObj [(''message'', JStr ''hi'')]),
                      msg_timestamp = 1000, msg_clientId = ''client_1_a'' \<rparr>]
   \<and> ws_sends (effects (handleMessage rt0 failing_onMessage demo_running 1 chat_frame tick))
       = [(1, JSON_stringify rt0 (error_envelope 1001 1002))]
   \<and> server (final (handleMessage rt0 failing_onMessage demo_running 1 chat_frame tick))
       = Some \<lparr> stop_throws = False \<rparr>
   \<and> completion (handleMessage rt0 failing_onMessage demo_running 1 chat_frame tick) = Returned"
proof -
  have h: "onMessage failing_onMessage = Some throwing"
    by (simp add: failing_onMessage_def all_handlers_def)
  have c: "onCustomMessage failing_onMessage = Some returning"
    by (simp add: failing_onMessage_def all_handlers_def)
  show ?thesis
    using onMessage_throws_value
      [where rt = rt0 and message = chat_frame and hs = failing_onMessage and f = throwing
         and st = demo_running and ws = 1 and clk = tick,
       OF parse_chat_frame _ _ h refl]
    by (simp add: h c eval_demo throwing_def)
qed

text \<open>
  C10. The claim: if \<open>onMessage\<close> throws on a well-formed frame, \<open>onCustomMessage\<close> is not
  invoked, the sender gets the \<open>error\<close> envelope, and the exception does not leave the
  inbound handler. Here the code is run on a chat frame from connection 1 with an
  \<open>onMessage\<close> that executes \<open>throw null\<close>: \<open>onMessage\<close> is the one callback invoked,
  no envelope is written, nothing is logged, and \<open>handleMessage\<close> throws.
\<close>

theorem onMessage_throws_null_escapes:
  "onMessage null_onMessage = Some throwing_null
   \<and> JSON_parse rt0 chat_frame
       = Some (JObj [(''type'', JStr ''chat''), (''data'', JObj [(''message'', JStr ''hi'')])])
   \<and> invocations (effects (handleMessage rt0 null_onMessage demo_running 1 chat_frame tick))
       = [OnMessage \<lparr> msg_type = Some (JStr ''chat''),
                      msg_data = Some (JObj [(''message'', JStr ''hi'')]),
                      msg_timestamp = 1000, msg_clientId = ''client_1_a'' \<rparr>]
   \<and> ws_sends (effects (handleMessage rt0 null_onMessage demo_running 1 chat_frame tick)) = []
   \<and> console_calls (effects (handleMessage rt0 null_onMessage demo_running 1 chat_frame tick)) = []
   \<and> completion (handleMessage rt0 null_onMessage demo_running 1 chat_frame tick)
       = Threw Non_nullish"
proof -
  have h: "onMessage null_onMessage = Some throwing_null"
    by (simp add: null_onMessage_def all_handlers_def)
  show ?thesis
    using onMessage_throws_nullish
      [where rt = rt0 and message = chat_frame and hs = null_onMessage and f = throwing_null
         and st = demo_running and ws = 1 and clk = tick,
       OF parse_chat_frame _ _ h refl]
    by (simp add: h parse_chat_frame eval_demo throwing_null_def)
qed

subsection \<open>Unicast\<close>

lemma unicast_envelope_fields:
  "member (unicast_envelope ty d t cid) ''clientId'' = Some (JStr cid)"
  "member (unicast_envelope ty d t cid) ''type'' = Some (JStr ty)"
  "member (unicast_envelope ty d t cid) ''data'' = Some d"
  by (simp_all add: unicast_envelope_def)

lemma demo_stopped_eq:
  "demo_stopped = demo_running\<lparr> clients := [], server := None \<rparr>"
  by (simp add: demo_stopped_def stop_def eval_demo)

text \<open>
  C6. \<open>sendToClient(clientId, data, type)\<close> returns without writing and without changing
  the state, with a warning, when the server is not running or \<open>clientId\<close> is not
  registered. Otherwise it writes one envelope, whose \<open>clientId\<close> field is the given id,
  to the connection registered under that id and to no other, and only if the
  \<open>readyState\<close> of that connection is open; when the write throws, the connection is
  removed from the registry. It never throws.
\<close>

theorem sendToClient_unicast:
  assumes r: "r = sendToClient rt st cid d ty clk"
    and t: "text = JSON_stringify rt (unicast_envelope (type_or_default ty) d (clk 0) cid)"
  shows "completion r = Returned
       \<and> (server st = None \<longrightarrow>
            final r = st \<and> ws_sends (effects r) = [] \<and> console_calls (effects r) = [Warn_not_running])
       \<and> (server st \<noteq> None \<longrightarrow> map_of (clients st) cid = None \<longrightarrow>
            final r = st \<and> ws_sends (effects r) = []
            \<and> console_calls (effects r) = [Warn_client_not_found cid])
       \<and> (\<forall>ws. server st \<noteq> None \<longrightarrow> map_of (clients st) cid = Some ws \<longrightarrow>
            ws_sends (effects r) = (if readyState (sockets st ws) = 1 then [(ws, text)] else [])
            \<and> member (unicast_envelope (type_or_default ty) d (clk 0) cid) ''clientId''
                = Some (JStr cid)
            \<and> (readyState (sockets st ws) = 1 \<and> send_throws (sockets st ws) text \<longrightarrow>
                  final r = st\<lparr> clients := AList.delete cid (clients st) \<rparr>
                  \<and> map_of (clients (final r)) cid = None)
            \<and> (\<not> (readyState (sockets st ws) = 1 \<and> send_throws (sockets st ws) text) \<longrightarrow>
                  final r = st))"
  unfolding r t
  by (auto simp: sendToClient_def Let_def unicast_envelope_fields delete_conv split: option.splits)

theorem sendToClient_unicast_witness:
  "server demo_stopped = None
   \<and> final (sendToClient rt0 demo_stopped ''client_1_a'' (JStr ''hi'') None tick) = demo_stopped
   \<and> console_calls (effects (sendToClient rt0 demo_stopped ''client_1_a'' (JStr ''hi'') None tick))
       = [Warn_not_running]
   \<and> map_of (clients demo_running) ''nobody'' = None
   \<and> final (sendToClient rt0 demo_running ''nobody'' (JStr ''hi'') None tick) = demo_running
   \<and> console_calls (effects (sendToClient rt0 demo_running ''nobody'' (JStr ''hi'') None tick))
       = [Warn_client_not_found ''nobody'']
   \<and> ws_sends (effects (sendToClient rt0 demo_running ''client_1_a'' (JStr ''hi'') (Some ''note'') tick))
       = [(1, JSON_stringify rt0 (unicast_envelope ''note'' (JStr ''hi'') 1000 ''client_1_a''))]
   \<and> final (sendToClient rt0 demo_running ''client_1_a'' (JStr ''hi'') (Some ''note'') tick)
       = demo_running
   \<and> map_of (clients demo_running) ''client_2_b'' = Some 2
   \<and> map_of (clients (final (sendToClient rt0 demo_running ''client_2_b'' (JStr ''hi'') None tick)))
       ''client_2_b'' = None
   \<and> ws_sends (effects (sendToClient rt0 demo_running ''client_3_c'' (JStr ''hi'') None tick)) = []"
  using sendToClient_unicast [OF refl refl, of rt0 demo_stopped "''client_1_a''" "JStr ''hi''" None tick]
    sendToClient_unicast [OF refl refl, of rt0 demo_running "''nobody''" "JStr ''hi''" None tick]
    sendToClient_unicast [OF refl refl, of rt0 demo_running "''client_1_a''" "JStr ''hi''" "Some ''note''" tick]
    sendToClient_unicast [OF refl refl, of rt0 demo_running "''client_2_b''" "JStr ''hi''" None tick]
    sendToClient_unicast [OF refl refl, of rt0 demo_running "''client_3_c''" "JStr ''hi''" None tick]
  by (simp add: demo_stopped_eq eval_demo type_or_default_def)

subsection \<open>Shutdown\<close>

lemma api_all_stopped:
  "server s = None \<Longrightarrow>
   list_all (\<lambda>r. final r = s \<and> ws_sends (effects r) = [] \<and> completion r = Returned)
     (api_all rt s calls)"
proof (induction calls)
  case Nil
  then show ?case by simp
next
  case (Cons c calls)
  then have "final (api rt s c) = s \<and> ws_sends (effects (api rt s c)) = []
      \<and> completion (api rt s c) = Returned"
    by (cases c) (simp_all add: send_def sendToClient_def)
  with Cons show ?case by simp
qed

lemma close_all_Returned:
  "list_all (\<lambda>(cid, ws). \<not> close_throws (ss ws)) cs \<Longrightarrow> fst (close_all ss cs) = Returned"
  by (induction cs) auto

lemma stop_returns:
  assumes "server st = Some srv" and "\<not> stop_throws srv"
    and "list_all (\<lambda>(cid, ws). \<not> close_throws (sockets st ws)) (clients st)"
  shows "completion (stop st) = Returned"
  using assms(1,2) close_all_Returned [OF assms(3)]
  by (cases "close_all (sockets st) (clients st)") (auto simp: stop_def)

text \<open>
  C7. After \<open>stop()\<close> has returned on a running server, the registry is empty,
  \<open>getStatus().isRunning\<close> is false, and every later call of \<open>send\<close> or \<open>sendToClient\<close>,
  in any number and order, returns without a write and leaves the state as it is.
\<close>

theorem stop_clears_and_silences:
  assumes "server st \<noteq> None" and "completion (stop st) = Returned"
  shows "clients (final (stop st)) = []
       \<and> connectedClients (getStatus (final (stop st))) = 0
       \<and> \<not> isRunning (getStatus (final (stop st)))
       \<and> list_all (\<lambda>r. final r = final (stop st) \<and> ws_sends (effects r) = []
                         \<and> completion r = Returned)
            (api_all rt (final (stop st)) calls)"
proof -
  from assms have s: "server (final (stop st)) = None \<and> clients (final (stop st)) = []"
    by (auto simp: stop_def split: option.splits prod.splits completion.splits if_splits)
  then show ?thesis
    using api_all_stopped [of "final (stop st)" rt calls] by (simp add: getStatus_def)
qed

theorem stop_clears_and_silences_witness:
  "server demo_running \<noteq> None
   \<and> completion (stop demo_running) = Returned
   \<and> clients (final (stop demo_running)) = []
   \<and> \<not> isRunning (getStatus (final (stop demo_running)))
   \<and> map (\<lambda>r. ws_sends (effects r))
        (api_all rt0 (final (stop demo_running))
           [Send (JStr ''x'') None tick, SendToClient ''client_1_a'' JNull None tick,
            Send JNull (Some ''evt'') tick])
       = [[], [], []]
   \<and> map final
        (api_all rt0 (final (stop demo_running))
           [Send (JStr ''x'') None tick, SendToClient ''client_1_a'' JNull None tick,
            Send JNull (Some ''evt'') tick])
       = [demo_stopped, demo_stopped, demo_stopped]"
proof -
  have running: "server demo_running \<noteq> None"
    by (simp add: demo_running_def)
  have returned: "completion (stop demo_running) = Returned"
    by (simp add: stop_def eval_demo)
  show ?thesis
    using stop_clears_and_silences [OF running returned, of rt0
        "[Send (JStr ''x'') None tick, SendToClient ''client_1_a'' JNull None tick,
          Send JNull (Some ''evt'') tick]"]
    by (auto simp: running returned demo_stopped_def)
qed

subsection \<open>Transport errors\<close>

lemma handleError_always_disconnects:
  "invocations (effects (handleError hs st ws))
     = (case onClientDisconnect hs of
          None \<Rightarrow> []
        | Some f \<Rightarrow> [OnClientDisconnect (clientId_or_unknown (sockets st ws))])"
  by (cases "onClientDisconnect hs")
     (simp_all add: handleError_def Let_def clientId_or_unknown_def split: option.splits)


text \<open>
  C8. On a transport error the client id is read from the metadata of the handle, with
  \<open>unknown\<close> when there is none. The claim goes on: removal and \<open>onClientDisconnect\<close>
  happen only if an id was resolved. Here the code is run on handle 5, which carries no
  metadata: the guard tests the defaulted string, so \<open>clients.delete('unknown')\<close> runs and
  \<open>onClientDisconnect('unknown')\<close> is invoked. \<open>handleClose\<close> on the same handle does
  neither.
\<close>

theorem handleError_unresolved_disconnects:
  "data (sockets demo_running 5) = None
   \<and> clientId_or_unknown (sockets demo_running 5) = ''unknown''
   \<and> invocations (effects (handleError all_handlers demo_running 5))
       = [OnClientDisconnect ''unknown'']
   \<and> final (handleError all_handlers demo_running 5)
       = demo_running\<lparr> clients := AList.delete ''unknown'' (clients demo_running) \<rparr>
   \<and> invocations (effects (handleClose all_handlers demo_running 5)) = []"
  by (simp add: handleError_def handleClose_def Let_def all_handlers_def returning_def eval_demo)

subsection \<open>Broadcast\<close>

lemma filter_delete:
  "filter (\<lambda>(k, w). k \<notin> K) (AList.delete c al) = filter (\<lambda>(k, w). k \<notin> insert c K) al"
  by (induction al) auto

lemma send_loop_clients:
  "fst (send_loop text xs st n es)
     = st\<lparr> clients := filter (\<lambda>(k, w). k \<notin> set (map fst (filter (write_fails (sockets st) text) xs)))
               (clients st) \<rparr>"
proof (induction xs arbitrary: st n es)
  case Nil
  then show ?case by simp
next
  case (Cons x xs)
  obtain cid ws where x: "x = (cid, ws)" by (cases x)
  show ?case
    unfolding x
    by (simp add: Cons.IH write_fails_def filter_delete)
qed

lemma send_loop_effects:
  "snd (snd (send_loop text xs st n es)) = es @ concat (map (send_events (sockets st) text) xs)"
  by (induction xs arbitrary: st n es) (auto simp: send_events_def)

lemma ws_sends_send_events:
  "ws_sends (concat (map (send_events ss text) xs))
     = map (\<lambda>(cid, ws). (ws, text)) (filter (\<lambda>(cid, ws). readyState (ss ws) = 1) xs)"
  by (induction xs) (auto simp: send_events_def)

lemma invocations_send_events:
  "invocations (concat (map (send_events ss text) xs)) = []"
  by (induction xs) (auto simp: send_events_def)

lemma failing_keys_filter:
  assumes "distinct (map fst al)"
  shows "filter (\<lambda>(k, w). k \<notin> set (map fst (filter P al))) al = filter (\<lambda>e. \<not> P e) al"
proof (intro filter_cong refl)
  fix x assume x: "x \<in> set al"
  obtain k w where kw: "x = (k, w)" by (cases x)
  have "k \<in> set (map fst (filter P al)) \<longleftrightarrow> P (k, w)"
  proof
    assume "k \<in> set (map fst (filter P al))"
    then obtain w' where "(k, w') \<in> set al" "P (k, w')" by auto
    with x kw assms have "w' = w" by (auto dest: eq_key_imp_eq_value)
    with \<open>P (k, w')\<close> show "P (k, w)" by simp
  next
    assume "P (k, w)"
    with x kw show "k \<in> set (map fst (filter P al))" by force
  qed
  then show "(case x of (k, w) \<Rightarrow> k \<notin> set (map fst (filter P al))) = (\<not> P x)"
    by (simp add: kw)
qed

lemma broadcast_envelope_fields:
  "member (broadcast_envelope ty d t) ''clientId'' = None"
  "member (broadcast_envelope ty d t) ''type'' = Some (JStr ty)"
  "member (broadcast_envelope ty d t) ''data'' = Some d"
  by (simp_all add: broadcast_envelope_def)

lemma send_running:
  assumes "server st \<noteq> None"
  shows "final (send rt st d ty clk)
           = fst (send_loop (JSON_stringify rt (broadcast_envelope (type_or_default ty) d (clk 0)))
                   (clients st) st 0 [])"
    and "ws_sends (effects (send rt st d ty clk))
           = ws_sends (snd (snd (send_loop (JSON_stringify rt (broadcast_envelope (type_or_default ty) d (clk 0)))
                   (clients st) st 0 [])))"
    and "completion (send rt st d ty clk) = Returned"
    and "invocations (effects (send rt st d ty clk))
           = invocations (snd (snd (send_loop (JSON_stringify rt (broadcast_envelope (type_or_default ty) d (clk 0)))
                   (clients st) st 0 [])))"
  using assms by (auto simp: send_def Let_def split: prod.splits)

lemma send_final:
  assumes "server st \<noteq> None" and "registry_ok st"
  shows "final (send rt st d ty clk)
       = st\<lparr> clients :=
           filter (\<lambda>(cid, ws). \<not> (readyState (sockets st ws) = 1
                     \<and> send_throws (sockets st ws)
                          (JSON_stringify rt (broadcast_envelope (type_or_default ty) d (clk 0)))))
             (clients st) \<rparr>"
proof -
  let ?text = "JSON_stringify rt (broadcast_envelope (type_or_default ty) d (clk 0))"
  have d: "distinct (map fst (clients st))"
    using assms(2) by (simp add: registry_ok_def)
  have a: "final (send rt st d ty clk) = st\<lparr> clients :=
             filter (\<lambda>(k, w). k \<notin> set (map fst (filter (write_fails (sockets st) ?text) (clients st))))
               (clients st) \<rparr>"
    by (simp only: send_running(1) [OF assms(1)] send_loop_clients)
  have b: "filter (\<lambda>e. \<not> write_fails (sockets st) ?text e) (clients st)
         = filter (\<lambda>(cid, ws). \<not> (readyState (sockets st ws) = 1 \<and> send_throws (sockets st ws) ?text))
             (clients st)"
    by (intro filter_cong refl) (auto simp: write_fails_def)
  show ?thesis
    using a unfolding failing_keys_filter [OF d] b .
qed

text \<open>
  C5. When the server is running, \<open>send(data, type)\<close> writes the one serialized envelope,
  which has no \<open>clientId\<close> field, to every registered connection whose \<open>readyState\<close> is
  open, in the order of the registry, and to no other connection. A write that throws
  removes that entry from the registry and no other, and the loop goes on to the entries
  that follow. No callback is invoked and the call returns.
\<close>

theorem send_broadcast:
  assumes "server st \<noteq> None" and "registry_ok st"
    and r: "r = send rt st d ty clk"
    and t: "text = JSON_stringify rt (broadcast_envelope (type_or_default ty) d (clk 0))"
  shows "ws_sends (effects r)
           = map (\<lambda>(cid, ws). (ws, text))
               (filter (\<lambda>(cid, ws). readyState (sockets st ws) = 1) (clients st))
       \<and> member (broadcast_envelope (type_or_default ty) d (clk 0)) ''clientId'' = None
       \<and> final r = st\<lparr> clients :=
             filter (\<lambda>(cid, ws). \<not> (readyState (sockets st ws) = 1 \<and> send_throws (sockets st ws) text))
               (clients st) \<rparr>
       \<and> invocations (effects r) = []
       \<and> completion r = Returned"
proof -
  have "final r = st\<lparr> clients :=
             filter (\<lambda>(cid, ws). \<not> (readyState (sockets st ws) = 1 \<and> send_throws (sockets st ws) text))
               (clients st) \<rparr>"
    unfolding r t using assms(1,2) by (rule send_final)
  moreover have "invocations (effects r) = []"
    unfolding r
    by (simp add: send_running(4) [OF assms(1)] send_loop_effects invocations_send_events)
  ultimately show ?thesis
    unfolding r t
    by (simp add: send_running(2,3) [OF assms(1)] send_loop_effects ws_sends_send_events
        broadcast_envelope_fields)
qed

theorem send_broadcast_witness:
  "server demo_running \<noteq> None
   \<and> registry_ok demo_running
   \<and> ws_sends (effects (send rt0 demo_running (JStr ''hi'') (Some ''evt'') tick))
       = [(1, JSON_stringify rt0 (broadcast_envelope ''evt'' (JStr ''hi'') 1000)),
          (2, JSON_stringify rt0 (broadcast_envelope ''evt'' (JStr ''hi'') 1000))]
   \<and> clients (final (send rt0 demo_running (JStr ''hi'') (Some ''evt'') tick))
       = [(''client_1_a'', 1), (''client_3_c'', 3)]
   \<and> completion (send rt0 demo_running (JStr ''hi'') (Some ''evt'') tick) = Returned"
proof -
  have running: "server demo_running \<noteq> None"
    by (simp add: demo_running_def)
  have ok: "registry_ok demo_running"
    by (simp add: registry_ok_def demo_running_def)
  show ?thesis
    using send_broadcast [OF running ok refl refl, of rt0 "JStr ''hi''" "Some ''evt''" tick]
    by (simp add: running ok demo_running_fields demo_sockets_def never_def always_def tick_def
        type_or_default_def)
qed

subsection \<open>The registry holds each key once\<close>

text \<open>
  \<open>registry_ok\<close> holds after construction and is kept by every method and every
  transport event, provided the callbacks keep it.
\<close>

lemma registry_ok_constructor: "registry_ok (constructor c ss)"
  by (simp add: registry_ok_def constructor_def)

lemma registry_ok_start: "registry_ok st \<Longrightarrow> registry_ok (final (start env st clk))"
  by (auto simp: registry_ok_def start_def split: bun.splits option.splits)

lemma registry_ok_stop: "registry_ok st \<Longrightarrow> registry_ok (final (stop st))"
  by (auto simp: registry_ok_def stop_def split: option.splits prod.splits completion.splits)

lemma registry_ok_send: "registry_ok st \<Longrightarrow> registry_ok (final (send rt st d ty clk))"
proof (cases "server st = None")
  case True
  then show "registry_ok st \<Longrightarrow> ?thesis" by (simp add: send_def)
next
  case False
  then show "registry_ok st \<Longrightarrow> ?thesis"
    by (simp add: registry_ok_def send_running(1) send_loop_clients distinct_map_filter)
qed

lemma registry_ok_sendToClient:
  "registry_ok st \<Longrightarrow> registry_ok (final (sendToClient rt st cid d ty clk))"
  by (auto simp: registry_ok_def sendToClient_def Let_def distinct_delete split: option.splits)

lemma registry_ok_handleOpen:
  assumes "registry_ok st" and "callbacks_preserve registry_ok hs"
  shows "registry_ok (final (handleOpen rt hs st ws rnd clk))"
proof -
  let ?st1 = "st\<lparr> sockets := (sockets st)
                  (ws := (sockets st ws)\<lparr> data := Some \<lparr> clientId = generateClientId (clk 0) rnd,
                                                        connectedAt = clk 1 \<rparr> \<rparr>),
                clients := AList.update (generateClientId (clk 0) rnd) ws (clients st) \<rparr>"
  have "registry_ok ?st1"
    using assms(1) by (simp add: registry_ok_def distinct_update)
  then show ?thesis
    using assms(2)
    by (cases "onClientConnect hs")
       (auto simp: handleOpen_def Let_def callbacks_preserve_def split: prod.splits)
qed

lemma registry_ok_handleClose:
  assumes "registry_ok st" and "callbacks_preserve registry_ok hs"
  shows "registry_ok (final (handleClose hs st ws))"
proof -
  have "registry_ok (st\<lparr> clients := AList.delete cid (clients st) \<rparr>)" for cid
    using assms(1) by (simp add: registry_ok_def distinct_delete)
  then show ?thesis
    using assms
    by (cases "onClientDisconnect hs")
       (auto simp: handleClose_def Let_def callbacks_preserve_def split: option.splits prod.splits)
qed

lemma registry_ok_handleError:
  assumes "registry_ok st" and "callbacks_preserve registry_ok hs"
  shows "registry_ok (final (handleError hs st ws))"
proof -
  have "registry_ok (st\<lparr> clients := AList.delete cid (clients st) \<rparr>)" for cid
    using assms(1) by (simp add: registry_ok_def distinct_delete)
  then show ?thesis
    using assms
    by (cases "onClientDisconnect hs")
       (auto simp: handleError_def Let_def callbacks_preserve_def split: option.splits prod.splits)
qed

lemma registry_ok_handleMessage:
  assumes "registry_ok st" and "callbacks_preserve registry_ok hs"
  shows "registry_ok (final (handleMessage rt hs st ws message clk))"
  using assms
  by (cases "onMessage hs"; cases "onCustomMessage hs")
     (auto simp: handleMessage_def Let_def callbacks_preserve_def
        split: option.splits prod.splits completion.splits)

subsection \<open>Client ids\<close>

lemma digit_char_inj:
  assumes "a < 10" and "b < 10" and "digit_char a = digit_char b"
  shows "a = b"
proof -
  have "distinct ''0123456789''" by simp
  moreover have "a < length ''0123456789''" "b < length ''0123456789''"
    using assms by simp_all
  ultimately show ?thesis
    using assms(3) unfolding digit_char_def by (simp only: nth_eq_iff_index_eq)
qed

lemma digit_char_mem: "d < 10 \<Longrightarrow> digit_char d \<in> set ''0123456789''"
  unfolding digit_char_def by (rule nth_mem) simp

lemma string_of_nat_digits: "set (string_of_nat n) \<subseteq> set ''0123456789''"
proof (induction n rule: string_of_nat.induct)
  case (1 n)
  show ?case
  proof (cases "n < 10")
    case True
    then show ?thesis
      using digit_char_mem [of n] by (subst string_of_nat.simps) simp
  next
    case False
    have "n mod 10 < 10" by simp
    from digit_char_mem [OF this] 1 [OF False] False show ?thesis
      by (subst string_of_nat.simps) simp
  qed
qed

lemma string_of_nat_not_Nil: "string_of_nat n \<noteq> []"
  by (subst string_of_nat.simps) simp

lemma string_of_nat_inj: "string_of_nat m = string_of_nat n \<Longrightarrow> m = n"
proof (induction m arbitrary: n rule: string_of_nat.induct)
  case (1 m)
  show ?case
  proof (cases "m < 10")
    case m: True
    show ?thesis
    proof (cases "n < 10")
      case True
      with m 1(2) show ?thesis
        by (simp add: string_of_nat.simps [of m] string_of_nat.simps [of n] digit_char_inj)
    next
      case False
      with m 1(2) string_of_nat_not_Nil [of "n div 10"] show ?thesis
        by (simp add: string_of_nat.simps [of m] string_of_nat.simps [of n])
    qed
  next
    case m: False
    show ?thesis
    proof (cases "n < 10")
      case True
      with m 1(2) string_of_nat_not_Nil [of "m div 10"] show ?thesis
        by (simp add: string_of_nat.simps [of m] string_of_nat.simps [of n])
    next
      case False
      with m 1(2) have eq: "string_of_nat (m div 10) = string_of_nat (n div 10)"
        and dg: "digit_char (m mod 10) = digit_char (n mod 10)"
        by (simp_all add: string_of_nat.simps [of m] string_of_nat.simps [of n])
      from 1(1) [OF m eq] have "m div 10 = n div 10" .
      moreover from dg have "m mod 10 = n mod 10"
        by (rule digit_char_inj [rotated 2]) simp_all
      ultimately show ?thesis
        by (metis div_mult_mod_eq)
    qed
  qed
qed

lemma split_at_first:
  assumes "x \<notin> set a" and "x \<notin> set b" and "a @ x # r = b @ x # s"
  shows "a = b \<and> r = s"
  using assms
proof (induction a arbitrary: b)
  case Nil
  then show ?case by (cases b) auto
next
  case (Cons y a)
  then show ?case by (cases b) auto
qed

lemma generateClientId_inj:
  assumes "generateClientId t1 r1 = generateClientId t2 r2"
  shows "t1 = t2 \<and> r1 = r2"
proof -
  have u1: "CHR ''_'' \<notin> set (string_of_nat t1)" and u2: "CHR ''_'' \<notin> set (string_of_nat t2)"
    using string_of_nat_digits [of t1] string_of_nat_digits [of t2] by auto
  from assms have "string_of_nat t1 @ CHR ''_'' # r1 = string_of_nat t2 @ CHR ''_'' # r2"
    by (simp add: generateClientId_def)
  then have "string_of_nat t1 = string_of_nat t2 \<and> r1 = r2"
    using split_at_first [OF u1 u2] by blast
  then show ?thesis
    by (auto dest: string_of_nat_inj)
qed

lemma open_all_ids: "snd (open_all rt hs st evs) = map assigned evs"
  by (induction evs arbitrary: st) (auto simp: assigned_def)

lemma distinct_assigned: "distinct (map draw evs) \<Longrightarrow> distinct (map assigned evs)"
proof (induction evs)
  case Nil
  then show ?case by simp
next
  case (Cons e evs)
  have "assigned e \<notin> set (map assigned evs)"
  proof
    assume "assigned e \<in> set (map assigned evs)"
    then obtain e' where e': "e' \<in> set evs" "assigned e = assigned e'" by auto
    then have "draw e = draw e'"
      using generateClientId_inj [of "snd (snd e) 0" "fst (snd e)" "snd (snd e') 0" "fst (snd e')"]
      by (simp add: assigned_def draw_def)
    with e'(1) Cons.prems show False by force
  qed
  with Cons show ?case by simp
qed

lemma handleOpen_clients:
  assumes "keeps_registry hs"
  shows "clients (final (handleOpen rt hs st ws rnd clk))
       = AList.update (generateClientId (clk 0) rnd) ws (clients st)"
  using assms
  by (cases "onClientConnect hs")
     (auto simp: handleOpen_def Let_def keeps_registry_def split: prod.splits)

lemma open_all_keys:
  assumes "keeps_registry hs"
    and "distinct (map assigned evs)"
    and "set (map assigned evs) \<inter> set (map fst (clients st)) = {}"
  shows "map fst (clients (fst (open_all rt hs st evs))) = map fst (clients st) @ map assigned evs"
  using assms(2,3)
proof (induction evs arbitrary: st)
  case Nil
  then show ?case by simp
next
  case (Cons e evs)
  obtain ws rnd clk where e: "e = (ws, rnd, clk)" by (cases e)
  let ?st' = "final (handleOpen rt hs st ws rnd clk)"
  have keys: "map fst (clients ?st') = map fst (clients st) @ [assigned e]"
    using Cons.prems(2)
    by (simp add: handleOpen_clients [OF assms(1)] update_keys e assigned_def)
  have "set (map assigned evs) \<inter> set (map fst (clients ?st')) = {}"
    using Cons.prems keys by auto
  with Cons.IH [of ?st'] Cons.prems(1) keys show ?case
    by (simp add: e)
qed

lemma demo_empty_fields:
  "server demo_empty = Some \<lparr> stop_throws = False \<rparr>"
  "clients demo_empty = []"
  "sockets demo_empty = demo_sockets"
  by (simp_all add: demo_empty_def demo_running_def)

lemma generateClientId_1000: "generateClientId 1000 rnd = ''client_1000_'' @ rnd"
  by (simp add: generateClientId_def eval_print)

lemma generateClientId_7: "generateClientId 7 rnd = ''client_7_'' @ rnd"
  by (simp add: generateClientId_def eval_print)

text \<open>
  C1, as the code has it. The claim asks that the ids of N connection-opened events be
  pairwise distinct whatever the clock and the random source return. The id is
  \<open>client_\<close>, the clock in decimal, \<open>_\<close> and the random string, and this is injective in
  the pair (clock, random string). So: from an empty registry, for N connection-opened
  events with no removal in between, no two of which draw the same clock value and the
  same random string, the registry holds exactly N entries, under the N assigned ids,
  and the ids are pairwise distinct.
\<close>

theorem distinct_draws_distinct_ids:
  assumes "clients st = []"
    and "distinct (map draw evs)"
    and "keeps_registry hs"
  shows "length (clients (fst (open_all rt hs st evs))) = length evs
       \<and> distinct (snd (open_all rt hs st evs))
       \<and> map fst (clients (fst (open_all rt hs st evs))) = snd (open_all rt hs st evs)"
proof -
  have d: "distinct (map assigned evs)"
    using assms(2) by (rule distinct_assigned)
  have k: "map fst (clients (fst (open_all rt hs st evs))) = map assigned evs"
    using open_all_keys [OF assms(3) d, of st rt] assms(1) by simp
  have "length (clients (fst (open_all rt hs st evs))) = length evs"
    using arg_cong [OF k, of length] by simp
  then show ?thesis
    using d k by (simp add: open_all_ids)
qed

theorem distinct_draws_distinct_ids_witness:
  "clients demo_empty = []
   \<and> distinct (map draw three_opens)
   \<and> keeps_registry all_handlers
   \<and> length (clients (fst (open_all rt0 all_handlers demo_empty three_opens))) = 3
   \<and> snd (open_all rt0 all_handlers demo_empty three_opens)
       = [''client_1000_k3x'', ''client_7_k3x'', ''client_7_q9z'']
   \<and> map fst (clients (fst (open_all rt0 all_handlers demo_empty three_opens)))
       = [''client_1000_k3x'', ''client_7_k3x'', ''client_7_q9z'']"
proof -
  have e: "clients demo_empty = []"
    by (simp add: demo_empty_fields)
  have d: "distinct (map draw three_opens)"
    by (simp add: three_opens_def draw_def tick_def frozen_def)
  have k: "keeps_registry all_handlers"
    by (simp add: keeps_registry_def all_handlers_def returning_def)
  have ids: "snd (open_all rt0 all_handlers demo_empty three_opens)
      = [''client_1000_k3x'', ''client_7_k3x'', ''client_7_q9z'']"
    by (simp add: open_all_ids three_opens_def assigned_def tick_def frozen_def
        generateClientId_1000 generateClientId_7)
  have len: "length three_opens = 3"
    by (simp add: three_opens_def)
  show ?thesis
    using distinct_draws_distinct_ids [OF e d k, of rt0]
    by (simp add: e d k ids len)
qed

text \<open>
  C1, as stated, fails: two connections opened at the same clock value with the same
  random string get the same id, the second \<open>clients.set\<close> overwrites the first, and
  the registry holds one entry after two connection-opened events.
\<close>

theorem same_draw_same_id:
  "length twin_opens = 2
   \<and> snd (open_all rt0 no_handlers demo_empty twin_opens) = [''client_7_k3x'', ''client_7_k3x'']
   \<and> clients (fst (open_all rt0 no_handlers demo_empty twin_opens)) = [(''client_7_k3x'', 6)]"
  by (simp add: twin_opens_def handleOpen_def Let_def no_handlers_def demo_empty_fields frozen_def
      generateClientId_7)

subsection \<open>Write failures, path by path\<close>

lemma handleOpen_registered:
  assumes "keeps_registry hs"
  shows "map_of (clients (final (handleOpen rt hs st ws rnd clk))) (generateClientId (clk 0) rnd)
       = Some ws"
  by (simp add: handleOpen_clients [OF assms] update_conv')

lemma send_removes_failing:
  assumes "server st \<noteq> None" and "registry_ok st" and "(cid, ws) \<in> set (clients st)"
    and "readyState (sockets st ws) = 1"
    and "send_throws (sockets st ws)
           (JSON_stringify rt (broadcast_envelope (type_or_default ty) d (clk 0)))"
  shows "cid \<notin> set (map fst (clients (final (send rt st d ty clk))))"
proof
  assume "cid \<in> set (map fst (clients (final (send rt st d ty clk))))"
  then obtain ws' where in_final: "(cid, ws') \<in> set (clients (final (send rt st d ty clk)))"
    by auto
  from send_final [OF assms(1,2), of rt d ty clk]
  have "clients (final (send rt st d ty clk))
      = filter (\<lambda>(c, h). \<not> (readyState (sockets st h) = 1
          \<and> send_throws (sockets st h)
               (JSON_stringify rt (broadcast_envelope (type_or_default ty) d (clk 0)))))
          (clients st)"
    by simp
  with in_final have mem: "(cid, ws') \<in> set (clients st)"
    and ok: "\<not> (readyState (sockets st ws') = 1
          \<and> send_throws (sockets st ws')
               (JSON_stringify rt (broadcast_envelope (type_or_default ty) d (clk 0))))"
    by auto
  from assms(2) have "distinct (map fst (clients st))"
    by (simp add: registry_ok_def)
  from eq_key_imp_eq_value [OF this mem assms(3)] have "ws' = ws" .
  with ok assms(4,5) show False by simp
qed

lemma sendToClient_removes_failing:
  assumes "server st \<noteq> None" and "map_of (clients st) cid = Some ws"
    and "readyState (sockets st ws) = 1"
    and "send_throws (sockets st ws)
           (JSON_stringify rt (unicast_envelope (type_or_default ty) d (clk 0) cid))"
  shows "map_of (clients (final (sendToClient rt st cid d ty clk))) cid = None"
  using assms by (auto simp: sendToClient_def Let_def delete_conv)

lemma handleMessage_reply_keeps_state:
  assumes "JSON_parse rt message = None
         \<or> (\<exists>p. JSON_parse rt message = Some p \<and> member p ''type'' = Some (JStr ''ping''))"
  shows "final (handleMessage rt hs st ws message clk) = st"
  using assms by (auto simp: handleMessage_def Let_def)

text \<open>
  C2, as the code has it. A write that throws removes the record of the connection from
  the registry before the call returns on the two outbound paths, \<open>send\<close> and
  \<open>sendToClient\<close>. On the other paths the failure is only logged: after \<open>handleOpen\<close> the
  new connection is registered whether or not the welcome write throws, and
  \<open>handleMessage\<close> leaves the state as it was when it answers a malformed frame or a
  heartbeat, whether or not the reply can be written.
\<close>

theorem write_failure_by_path:
  "(server st \<noteq> None \<and> registry_ok st \<and> (cid, ws) \<in> set (clients st)
      \<and> readyState (sockets st ws) = 1
      \<and> send_throws (sockets st ws)
           (JSON_stringify rt (broadcast_envelope (type_or_default ty) d (clk 0)))
      \<longrightarrow> cid \<notin> set (map fst (clients (final (send rt st d ty clk)))))
   \<and> (server st \<noteq> None \<and> map_of (clients st) cid = Some ws
      \<and> readyState (sockets st ws) = 1
      \<and> send_throws (sockets st ws)
           (JSON_stringify rt (unicast_envelope (type_or_default ty) d (clk 0) cid))
      \<longrightarrow> map_of (clients (final (sendToClient rt st cid d ty clk))) cid = None)
   \<and> (keeps_registry hs
      \<longrightarrow> clients (final (handleOpen rt hs st ws rnd clk))
            = AList.update (generateClientId (clk 0) rnd) ws (clients st)
        \<and> map_of (clients (final (handleOpen rt hs st ws rnd clk))) (generateClientId (clk 0) rnd)
            = Some ws)
   \<and> (JSON_parse rt message = None
        \<or> (\<exists>p. JSON_parse rt message = Some p \<and> member p ''type'' = Some (JStr ''ping''))
      \<longrightarrow> final (handleMessage rt hs st ws message clk) = st)"
  using send_removes_failing [of st cid ws rt ty d clk]
    sendToClient_removes_failing [of st cid ws rt ty d clk]
    handleOpen_clients [of hs rt st ws rnd clk] handleOpen_registered [of hs rt st ws rnd clk]
    handleMessage_reply_keeps_state [of rt message hs st ws clk]
  by blast

theorem write_failure_by_path_witness:
  "send_throws (sockets demo_running 2)
     (JSON_stringify rt0 (broadcast_envelope ''message'' (JStr ''hi'') 1000))
   \<and> ''client_2_b'' \<notin> set (map fst (clients (final (send rt0 demo_running (JStr ''hi'') None tick))))
   \<and> send_throws (sockets demo_running 2)
       (JSON_stringify rt0 (unicast_envelope ''message'' (JStr ''hi'') 1000 ''client_2_b''))
   \<and> map_of (clients (final (sendToClient rt0 demo_running ''client_2_b'' (JStr ''hi'') None tick)))
       ''client_2_b'' = None
   \<and> send_throws (sockets demo_running 4)
       (JSON_stringify rt0 (connected_envelope ''client_1000_k3x'' 1002 1003))
   \<and> map_of (clients (final (handleOpen rt0 no_handlers demo_running 4 ''k3x'' tick)))
       ''client_1000_k3x'' = Some 4
   \<and> send_throws (sockets demo_running 2) (JSON_stringify rt0 (error_envelope 1000 1001))
   \<and> final (handleMessage rt0 no_handlers demo_running 2 ''hello'' tick) = demo_running
   \<and> send_throws (sockets demo_running 2) (JSON_stringify rt0 (pong_envelope 1001 1002))
   \<and> final (handleMessage rt0 no_handlers demo_running 2 ping_frame tick) = demo_running"
proof -
  have ok: "registry_ok demo_running"
    by (simp add: registry_ok_def demo_running_fields)
  have k: "keeps_registry no_handlers"
    by (simp add: keeps_registry_def no_handlers_def)
  have t2: "send_throws (demo_sockets 2) s" for s
    by (simp add: demo_sockets_def always_def)
  have t4: "send_throws (demo_sockets 4) s" for s
    by (simp add: demo_sockets_def always_def)
  have r2: "readyState (demo_sockets 2) = Suc 0"
    by (simp add: demo_sockets_def)
  show ?thesis
    using write_failure_by_path
      [where st = demo_running and cid = "''client_2_b''" and ws = 2 and rt = rt0 and ty = None
         and d = "JStr ''hi''" and clk = tick and hs = no_handlers and rnd = "''k3x''"
         and message = "''hello''"]
      write_failure_by_path
      [where st = demo_running and cid = "''client_2_b''" and ws = 4 and rt = rt0 and ty = None
         and d = "JStr ''hi''" and clk = tick and hs = no_handlers and rnd = "''k3x''"
         and message = "''hello''"]
      write_failure_by_path
      [where st = demo_running and cid = "''client_2_b''" and ws = 2 and rt = rt0 and ty = None
         and d = "JStr ''hi''" and clk = tick and hs = no_handlers and rnd = "''k3x''"
         and message = ping_frame]
    by (simp add: ok k t2 t4 r2 parse_hello parse_ping_frame demo_running_fields tick_def
        generateClientId_1000 type_or_default_def)
qed

text \<open>
  C2, as stated, fails on the welcome path: handle 4 is a connection whose \<open>send\<close>
  throws. \<open>handleOpen\<close> registers it, the welcome write throws and is logged, and when
  \<open>handleOpen\<close> returns the record is still in the registry.
\<close>

theorem welcome_failure_keeps_record:
  "send_throws (sockets demo_running 4)
     (JSON_stringify rt0 (connected_envelope ''client_1000_k3x'' 1002 1003))
   \<and> ws_sends (effects (handleOpen rt0 no_handlers demo_running 4 ''k3x'' tick))
       = [(4, JSON_stringify rt0 (connected_envelope ''client_1000_k3x'' 1002 1003))]
   \<and> console_calls (effects (handleOpen rt0 no_handlers demo_running 4 ''k3x'' tick))
       = [Log_client_connected ''client_1000_k3x'' 4, Warn_welcome_failed ''client_1000_k3x'']
   \<and> map_of (clients (final (handleOpen rt0 no_handlers demo_running 4 ''k3x'' tick)))
       ''client_1000_k3x'' = Some 4
   \<and> completion (handleOpen rt0 no_handlers demo_running 4 ''k3x'' tick) = Returned"
  by (simp add: handleOpen_def Let_def no_handlers_def demo_running_fields demo_sockets_def
      always_def tick_def generateClientId_1000)

subsection \<open>The reference runtime reads what it writes\<close>

lemma digit_cases:
  assumes "d < (10::nat)"
  obtains "d = 0" | "d = 1" | "d = 2" | "d = 3" | "d = 4" | "d = 5" | "d = 6" | "d = 7"
    | "d = 8" | "d = 9"
proof -
  from assms have "d = 0 \<or> d = 1 \<or> d = 2 \<or> d = 3 \<or> d = 4 \<or> d = 5 \<or> d = 6 \<or> d = 7
      \<or> d = 8 \<or> d = 9"
    by arith
  then show thesis
    using that by blast
qed

lemma digit_char_is_digit: "d < 10 \<Longrightarrow> is_digit (digit_char d)"
  by (erule digit_cases) (simp_all add: is_digit_def digit_char_def)

lemma digit_val_digit_char: "d < 10 \<Longrightarrow> digit_val (digit_char d) = d"
  by (erule digit_cases) (simp_all add: digit_val_def digit_char_def)

lemma string_of_nat_all_digits: "c \<in> set (string_of_nat n) \<Longrightarrow> is_digit c"
proof (induction n arbitrary: c rule: string_of_nat.induct)
  case (1 n)
  show ?case
  proof (cases "n < 10")
    case True
    with 1(2) show ?thesis
      by (simp add: string_of_nat.simps [of n] digit_char_is_digit)
  next
    case False
    with 1(2) have "c \<in> set (string_of_nat (n div 10)) \<or> c = digit_char (n mod 10)"
      by (auto simp: string_of_nat.simps [of n])
    then show ?thesis
      using 1(1) [OF False] digit_char_is_digit [of "n mod 10"] by auto
  qed
qed

lemma nat_of_digits_snoc:
  "nat_of_digits acc (xs @ [c]) = 10 * nat_of_digits acc xs + digit_val c"
  by (induction xs arbitrary: acc) simp_all

lemma nat_of_digits_string_of_nat: "nat_of_digits 0 (string_of_nat n) = n"
proof (induction n rule: string_of_nat.induct)
  case (1 n)
  show ?case
  proof (cases "n < 10")
    case True
    then show ?thesis
      by (simp add: string_of_nat.simps [of n] digit_val_digit_char)
  next
    case False
    with 1 show ?thesis
      by (simp add: string_of_nat.simps [of n] nat_of_digits_snoc digit_val_digit_char)
  qed
qed

lemma takeWhile_digits:
  assumes "digit_free_start rest"
  shows "takeWhile is_digit (string_of_nat n @ rest) = string_of_nat n"
    and "dropWhile is_digit (string_of_nat n @ rest) = rest"
proof -
  have r: "takeWhile is_digit rest = []" "dropWhile is_digit rest = rest"
    using assms by (cases rest; simp add: digit_free_start_def)+
  show "takeWhile is_digit (string_of_nat n @ rest) = string_of_nat n"
    by (simp add: takeWhile_append2 string_of_nat_all_digits r)
  show "dropWhile is_digit (string_of_nat n @ rest) = rest"
    by (simp add: dropWhile_append2 string_of_nat_all_digits r)
qed

lemma parse_nat_string_of_nat:
  assumes "digit_free_start rest"
  shows "parse_nat (string_of_nat n @ rest) = Some (n, rest)"
  by (simp add: parse_nat_def takeWhile_digits [OF assms] string_of_nat_not_Nil
      nat_of_digits_string_of_nat)

lemma string_of_nat_hd:
  obtains c cs where "string_of_nat n = c # cs" and "is_digit c"
proof (cases "string_of_nat n")
  case Nil
  then show ?thesis using string_of_nat_not_Nil by simp
next
  case (Cons c cs)
  then have "c \<in> set (string_of_nat n)" by simp
  then have "is_digit c" by (rule string_of_nat_all_digits)
  with Cons that show ?thesis by blast
qed

lemma minus_not_digit: "\<not> is_digit CHR ''-''"
  by (simp add: is_digit_def)

lemma parse_int_print_int:
  assumes "digit_free_start rest"
  shows "parse_int (print_int i @ rest) = Some (i, rest)"
proof (cases "i < 0")
  case True
  then show ?thesis
    by (simp add: parse_int_def print_int_def parse_nat_string_of_nat [OF assms])
next
  case False
  obtain c cs where s: "string_of_nat (nat i) = c # cs" and c: "is_digit c"
    by (rule string_of_nat_hd)
  from c have "c \<noteq> CHR ''-''" using minus_not_digit by auto
  moreover have "parse_nat (c # cs @ rest) = Some (nat i, rest)"
    using parse_nat_string_of_nat [OF assms, of "nat i"] by (simp add: s)
  ultimately show ?thesis
    using False by (simp add: parse_int_def print_int_def s)
qed

lemma number_end_digit_free: "number_end rest \<Longrightarrow> digit_free_start rest"
  by (cases rest) (simp_all add: number_end_def digit_free_start_def)

lemma slash_start: "digit_free_start (CHR ''/'' # s)"
  by (simp add: digit_free_start_def is_digit_def)

lemma parse_number_print_number:
  assumes "number_end rest"
  shows "parse_number (print_number x @ rest) = Some (x, rest)"
proof -
  obtain p q where pq: "quotient_of x = (p, q)" by (cases "quotient_of x")
  then have q: "q > 0" and x: "x = of_int p / of_int q"
    by (simp_all add: quotient_of_denom_pos quotient_of_div)
  have df: "digit_free_start rest"
    using assms by (rule number_end_digit_free)
  show ?thesis
  proof (cases "q = 1")
    case True
    have "parse_number (print_int p @ rest)
        = (case rest of
             [] \<Rightarrow> Some (of_int p, rest)
           | c # r' \<Rightarrow>
               if c = CHR ''/'' then map_option (\<lambda>(q, r''). (Fract p (int q), r'')) (parse_nat r')
               else Some (of_int p, rest))"
      by (simp add: parse_number_def parse_int_print_int [OF df])
    also have "\<dots> = Some (of_int p, rest)"
      using assms by (cases rest) (simp_all add: number_end_def)
    finally have "parse_number (print_int p @ rest) = Some (of_int p, rest)" .
    with True x pq show ?thesis
      by (simp add: print_number_def)
  next
    case False
    have "parse_int (print_int p @ CHR ''/'' # string_of_nat (nat q) @ rest)
        = Some (p, CHR ''/'' # string_of_nat (nat q) @ rest)"
      by (rule parse_int_print_int [OF slash_start])
    moreover have "Fract p (int (nat q)) = x"
      using q x by (simp add: Fract_of_int_quotient)
    ultimately show ?thesis
      using False pq
      by (simp add: print_number_def parse_number_def parse_nat_string_of_nat [OF df])
  qed
qed

lemma parse_string_body_escape:
  "parse_string_body (escape s @ CHR 0x22 # rest) = Some (s, rest)"
  by (induction s) simp_all


lemma value_end_number_end: "value_end rest \<Longrightarrow> number_end rest"
  by (cases rest) (auto simp: value_end_def number_end_def is_digit_def)

lemma value_end_simps [simp]:
  "value_end []" "value_end (CHR '','' # s)" "value_end (CHR '']'' # s)" "value_end (CHR ''}'' # s)"
  by (simp_all add: value_end_def)

lemma print_number_hd:
  obtains c cs where "print_number x = c # cs" and "c = CHR ''-'' \<or> is_digit c"
proof -
  obtain d ds where s: "string_of_nat (nat (fst (quotient_of x))) = d # ds" and d: "is_digit d"
    by (rule string_of_nat_hd)
  show thesis
  proof (cases "fst (quotient_of x) < 0")
    case True
    then have "\<exists>cs. print_number x = CHR ''-'' # cs"
      by (simp add: print_number_def print_int_def)
    with that show ?thesis by blast
  next
    case False
    then have "\<exists>cs. print_number x = d # cs"
      by (simp add: print_number_def print_int_def s)
    with that d show ?thesis by blast
  qed
qed

lemma digit_not_punct:
  assumes "c = CHR ''-'' \<or> is_digit c"
  shows "c \<noteq> CHR ''n''" "c \<noteq> CHR ''t''" "c \<noteq> CHR ''f''" "c \<noteq> CHR 0x22" "c \<noteq> CHR ''[''"
    "c \<noteq> CHR ''{''" "c \<noteq> CHR '']''"
  using assms by (auto simp: is_digit_def)

lemma parse_value_number:
  assumes "value_end rest" and "0 < n"
  shows "parse_value n (print_number x @ rest) = Some (JNum x, rest)"
proof -
  obtain c cs where p: "print_number x = c # cs" and c: "c = CHR ''-'' \<or> is_digit c"
    by (rule print_number_hd)
  obtain k where n: "n = Suc k"
    using assms(2) by (cases n) simp_all
  have "parse_number (c # cs @ rest) = Some (x, rest)"
    using parse_number_print_number [OF value_end_number_end [OF assms(1)], of x] by (simp add: p)
  then show ?thesis
    using digit_not_punct [OF c] by (simp add: p n)
qed

lemma print_json_hd:
  obtains c cs where "print_json v = c # cs" and "c \<noteq> CHR '']''"
proof (cases v)
  case (JNum x)
  obtain c cs where "print_number x = c # cs" and "c = CHR ''-'' \<or> is_digit c"
    by (rule print_number_hd)
  with JNum that digit_not_punct(7) show ?thesis by simp
next
  case (JBool b)
  with that show ?thesis by (cases b) simp_all
qed (use that in \<open>simp_all add: quote_def\<close>)

lemma length_print_json_pos: "0 < length (print_json v)"
  by (rule print_json_hd [of v]) simp

lemma commas_Cons:
  "commas (x # xs) = (if xs = [] then x else x @ CHR '','' # commas xs)"
  by (cases xs) simp_all

lemma parse_elements_commas:
  assumes IH: "\<And>v n rest. v \<in> set vs \<Longrightarrow> length (print_json v) \<le> n \<Longrightarrow> value_end rest
      \<Longrightarrow> parse_value n (print_json v @ rest) = Some (v, rest)"
    and "vs \<noteq> []" and "length (commas (map print_json vs)) < m"
  shows "parse_elements m (commas (map print_json vs) @ CHR '']'' # rest) = Some (vs, rest)"
  using assms
proof (induction vs arbitrary: m)
  case Nil
  then show ?case by simp
next
  case (Cons v vs)
  from Cons.prems(3) obtain k where m: "m = Suc k"
    by (cases m) simp_all
  show ?case
  proof (cases "vs = []")
    case True
    with Cons.prems(3) m have "length (print_json v) \<le> k" by simp
    then have "parse_value k (print_json v @ CHR '']'' # rest) = Some (v, CHR '']'' # rest)"
      by (intro Cons.prems(1)) simp_all
    with True show ?thesis by (simp add: m)
  next
    case False
    from False Cons.prems(3) m have lv: "length (print_json v) \<le> k"
      and lr: "length (commas (map print_json vs)) < k"
      using length_print_json_pos [of v] by (simp_all add: commas_Cons)
    have "parse_value k (print_json v @ CHR '','' # commas (map print_json vs) @ CHR '']'' # rest)
        = Some (v, CHR '','' # commas (map print_json vs) @ CHR '']'' # rest)"
      using lv by (intro Cons.prems(1)) simp_all
    moreover have "parse_elements k (commas (map print_json vs) @ CHR '']'' # rest) = Some (vs, rest)"
      using False lr by (intro Cons.IH Cons.prems(1)) simp_all
    ultimately show ?thesis
      using False by (simp add: m commas_Cons)
  qed
qed

lemma print_json_JObj: "print_json (JObj fs) = ''{'' @ commas (map print_member fs) @ ''}''"
proof -
  have "print_member = (\<lambda>(k, v). quote k @ '':'' @ print_json v)"
    by (auto simp: print_member_def fun_eq_iff)
  then show ?thesis by simp
qed

lemma parse_members_commas:
  assumes IH: "\<And>kv n rest. kv \<in> set fs \<Longrightarrow> length (print_json (snd kv)) \<le> n \<Longrightarrow> value_end rest
      \<Longrightarrow> parse_value n (print_json (snd kv) @ rest) = Some (snd kv, rest)"
    and "fs \<noteq> []" and "length (commas (map print_member fs)) < m"
  shows "parse_members m (commas (map print_member fs) @ CHR ''}'' # rest) = Some (fs, rest)"
  using assms
proof (induction fs arbitrary: m)
  case Nil
  then show ?case by simp
next
  case (Cons kv fs)
  obtain key v where kv: "kv = (key, v)" by (cases kv)
  from Cons.prems(3) obtain k where m: "m = Suc k"
    by (cases m) simp_all
  have pm: "print_member (key, v) = CHR 0x22 # escape key @ CHR 0x22 # CHR '':'' # print_json v"
    by (simp add: print_member_def quote_def)
  show ?case
  proof (cases "fs = []")
    case True
    with Cons.prems(3) m have "length (print_json v) \<le> k" by (simp add: pm kv)
    then have "parse_value k (print_json v @ CHR ''}'' # rest) = Some (v, CHR ''}'' # rest)"
      using Cons.prems(1) [of kv k "CHR ''}'' # rest"] by (simp add: kv)
    with True show ?thesis by (simp add: m pm kv parse_string_body_escape)
  next
    case False
    from False Cons.prems(3) m have lv: "length (print_json v) \<le> k"
      and lr: "length (commas (map print_member fs)) < k"
      by (simp_all add: commas_Cons pm kv)
    have "parse_value k (print_json v @ CHR '','' # commas (map print_member fs) @ CHR ''}'' # rest)
        = Some (v, CHR '','' # commas (map print_member fs) @ CHR ''}'' # rest)"
      using lv Cons.prems(1) [of kv k "CHR '','' # commas (map print_member fs) @ CHR ''}'' # rest"]
      by (simp add: kv)
    moreover have "parse_members k (commas (map print_member fs) @ CHR ''}'' # rest) = Some (fs, rest)"
      using False lr by (intro Cons.IH Cons.prems(1)) simp_all
    ultimately show ?thesis
      using False by (simp add: m commas_Cons pm kv parse_string_body_escape)
  qed
qed

lemma parse_value_print_json:
  "length (print_json v) \<le> n \<Longrightarrow> value_end rest
     \<Longrightarrow> parse_value n (print_json v @ rest) = Some (v, rest)"
proof (induction v arbitrary: n rest)
  case JNull
  then obtain k where "n = Suc k" by (cases n) simp_all
  then show ?case by simp
next
  case (JBool b)
  then obtain k where "n = Suc k" by (cases n; cases b) simp_all
  then show ?case by (cases b) simp_all
next
  case (JNum x)
  then have "0 < n"
    using length_print_json_pos [of "JNum x"] by (cases n) simp_all
  with JNum show ?case by (simp add: parse_value_number)
next
  case (JStr s)
  then obtain k where "n = Suc k" by (cases n) (simp_all add: quote_def)
  then show ?case by (simp add: quote_def parse_string_body_escape)
next
  case (JArr vs)
  then obtain k where n: "n = Suc k" by (cases n) simp_all
  show ?case
  proof (cases "vs = []")
    case True
    then show ?thesis by (simp add: n)
  next
    case False
    from False obtain v0 vs0 where vs: "vs = v0 # vs0"
      by (cases vs) simp_all
    obtain c cs where hd: "print_json v0 = c # cs" and c: "c \<noteq> CHR '']''"
      by (rule print_json_hd)
    have "\<exists>cs'. commas (map print_json vs) = c # cs'"
      by (simp add: vs commas_Cons hd)
    then obtain cs' where cm: "commas (map print_json vs) = c # cs'" by blast
    have "length (commas (map print_json vs)) < k"
      using JArr.prems(1) n by simp
    then have "parse_elements k (commas (map print_json vs) @ CHR '']'' # rest) = Some (vs, rest)"
      using JArr.IH False by (intro parse_elements_commas) simp_all
    then show ?thesis
      using c by (simp add: n cm)
  qed
next
  case (JObj fs)
  then obtain k where n: "n = Suc k" by (cases n) simp_all
  show ?case
  proof (cases "fs = []")
    case True
    then show ?thesis by (simp add: n)
  next
    case False
    from False have "\<exists>cs'. commas (map print_member fs) = CHR 0x22 # cs'"
      by (cases fs) (simp_all add: commas_Cons print_member_def quote_def)
    then obtain cs' where cm: "commas (map print_member fs) = CHR 0x22 # cs'" by blast
    have "length (commas (map print_member fs)) < k"
      using JObj.prems(1) [unfolded print_json_JObj] n by simp
    moreover have "parse_value m (print_json (snd kv) @ r) = Some (snd kv, r)"
      if "kv \<in> set fs" "length (print_json (snd kv)) \<le> m" "value_end r" for kv m r
    proof -
      obtain a b where ab: "kv = (a, b)" by (cases kv)
      have "parse_value m (print_json b @ r) = Some (b, r)"
        using JObj.IH [OF that(1), of b m r] that(2,3) by (simp add: ab)
      then show ?thesis by (simp add: ab)
    qed
    ultimately have "parse_members k (commas (map print_member fs) @ CHR ''}'' # rest) = Some (fs, rest)"
      using False by (intro parse_members_commas) simp_all
    then show ?thesis
      by (simp add: n print_json_JObj cm del: print_json.simps)
  qed
qed

lemma parse_text_print_json: "parse_text (print_json v) = Some v"
  using parse_value_print_json [of v "Suc (length (print_json v))" "[]"]
  by (simp add: parse_text_def)


lemma roundtrips_rt0: "roundtrips rt0"
  by (simp add: roundtrips_def rt0_def parse_text_print_json)

subsection \<open>The envelope on the wire\<close>

lemma wf_broadcast_envelope: "wf_json d \<Longrightarrow> wf_json (broadcast_envelope ty d t)"
  by (simp add: broadcast_envelope_def)

lemma ws_sends_send:
  "set (ws_sends (effects (send rt st d ty clk)))
     \<subseteq> {(ws, JSON_stringify rt (broadcast_envelope (type_or_default ty) d (clk 0))) | ws. True}"
proof (cases "server st = None")
  case True
  then show ?thesis by (simp add: send_def)
next
  case False
  then show ?thesis
    by (auto simp: send_running(2) send_loop_effects ws_sends_send_events)
qed

text \<open>
  C9. \<open>JSON.stringify\<close> and \<open>JSON.parse\<close> belong to the runtime. For a runtime whose parser
  gives back what its printer wrote, for every JSON value \<open>data\<close> and every \<open>type\<close>:
  every text that \<open>send(data, type)\<close> writes decodes to an object whose \<open>type\<close> field is
  the given type and whose \<open>data\<close> field is the given data.
\<close>

theorem send_envelope_roundtrip:
  assumes "roundtrips rt" and "wf_json d"
  shows "\<forall>(ws, text) \<in> set (ws_sends (effects (send rt st d ty clk))).
           \<exists>obj. JSON_parse rt text = Some obj
             \<and> member obj ''type'' = Some (JStr (type_or_default ty))
             \<and> member obj ''data'' = Some d"
proof -
  let ?env = "broadcast_envelope (type_or_default ty) d (clk 0)"
  have "JSON_parse rt (JSON_stringify rt ?env) = Some ?env"
    using assms wf_broadcast_envelope [of d] by (simp add: roundtrips_def)
  moreover have "member ?env ''type'' = Some (JStr (type_or_default ty))"
    and "member ?env ''data'' = Some d"
    by (simp_all add: broadcast_envelope_fields)
  ultimately show ?thesis
    using ws_sends_send [of rt st d ty clk] by auto
qed

theorem send_envelope_roundtrip_witness:
  "roundtrips rt0
   \<and> wf_json x1
   \<and> ws_sends (effects (send rt0 demo_running x1 (Some ''evt'') tick))
       = [(1, JSON_stringify rt0 (broadcast_envelope ''evt'' x1 1000)),
          (2, JSON_stringify rt0 (broadcast_envelope ''evt'' x1 1000))]
   \<and> (\<exists>obj. JSON_parse rt0 (JSON_stringify rt0 (broadcast_envelope ''evt'' x1 1000)) = Some obj
         \<and> member obj ''type'' = Some (JStr ''evt'')
         \<and> member obj ''data'' = Some x1)"
proof -
  have wf: "wf_json x1"
    by (simp add: x1_def)
  have sends: "ws_sends (effects (send rt0 demo_running x1 (Some ''evt'') tick))
       = [(1, JSON_stringify rt0 (broadcast_envelope ''evt'' x1 1000)),
          (2, JSON_stringify rt0 (broadcast_envelope ''evt'' x1 1000))]"
    by (simp add: send_def Let_def demo_running_fields demo_sockets_def never_def always_def
        tick_def type_or_default_def)
  show ?thesis
    using send_envelope_roundtrip [OF roundtrips_rt0 wf, of demo_running "Some ''evt''" tick]
    by (simp add: roundtrips_rt0 wf sends type_or_default_def)
qed

end
